theory Spec2Isabelle
  imports Main "HOL-Library.Sublist"
begin

section \<open>Python text\<close>

text \<open>
  A Python \<open>str\<close> is a sequence of Unicode code points; it is modelled as a list of
  natural numbers. ASCII literals of the source are written with \<open>lit\<close>.
\<close>

type_synonym ustr = "nat list"

definition lit :: "string \<Rightarrow> ustr" where
  "lit s = map of_char s"

text \<open>
  The functions of the standard library that consult the Unicode character database
  are parameters of the model: \<open>str.upper\<close> (a full case mapping applied code point by
  code point), \<open>str.title\<close>, \<open>unicodedata.normalize("NFD", _)\<close>, the test
  \<open>unicodedata.category(ch) == "Mn"\<close> and the class \<open>\d\<close> of \<open>re\<close>.
\<close>

record ucd =
  upper_of :: "nat \<Rightarrow> ustr"
  title_of :: "ustr \<Rightarrow> ustr"
  nfd_of :: "ustr \<Rightarrow> ustr"
  is_Mn :: "nat \<Rightarrow> bool"
  is_decimal :: "nat \<Rightarrow> bool"

definition upper :: "ucd \<Rightarrow> ustr \<Rightarrow> ustr" where
  "upper db s = concat (map (upper_of db) s)"

text \<open>\<open>str.isspace\<close> on one code point; \<open>split()\<close>, \<open>strip()\<close> and \<open>\s\<close> use it.\<close>

definition isspace :: "nat \<Rightarrow> bool" where
  "isspace c \<longleftrightarrow>
     (9 \<le> c \<and> c \<le> 13) \<or> (28 \<le> c \<and> c \<le> 32) \<or> c = 133 \<or> c = 160 \<or> c = 5760 \<or>
     (8192 \<le> c \<and> c \<le> 8202) \<or> c = 8232 \<or> c = 8233 \<or> c = 8239 \<or> c = 8287 \<or> c = 12288"

text \<open>\<open>s.split()\<close>: the maximal runs of non-whitespace; \<open>w\<close> is the run being read.\<close>

fun split_acc :: "ustr \<Rightarrow> ustr \<Rightarrow> ustr list" where
  "split_acc w [] = (if w = [] then [] else [w])"
| "split_acc w (c # cs) =
     (if isspace c then (if w = [] then split_acc [] cs else w # split_acc [] cs)
      else split_acc (w @ [c]) cs)"

definition split_ws :: "ustr \<Rightarrow> ustr list" where
  "split_ws s = split_acc [] s"

text \<open>\<open>sep.join(parts)\<close>.\<close>

fun join :: "ustr \<Rightarrow> ustr list \<Rightarrow> ustr" where
  "join sep [] = []"
| "join sep [x] = x"
| "join sep (x # y # ys) = x @ sep @ join sep (y # ys)"

text \<open>\<open>" ".join(s.split())\<close>.\<close>

definition collapse_ws :: "ustr \<Rightarrow> ustr" where
  "collapse_ws s = join [32] (split_ws s)"

text \<open>\<open>s.find(sub)\<close>: the lowest index of an occurrence; \<open>None\<close> is Python's \<open>-1\<close>.\<close>

fun find_sub :: "ustr \<Rightarrow> ustr \<Rightarrow> nat option" where
  "find_sub [] sub = (if sub = [] then Some 0 else None)"
| "find_sub (c # cs) sub =
     (if prefix sub (c # cs) then Some 0 else map_option Suc (find_sub cs sub))"

text \<open>\<open>sub in s\<close>.\<close>

definition contains :: "ustr \<Rightarrow> ustr \<Rightarrow> bool" where
  "contains s sub \<longleftrightarrow> find_sub s sub \<noteq> None"

text \<open>
  \<open>s.replace(old, new)\<close>: the occurrences of \<open>old\<close> are taken from left to right
  without overlap.
\<close>

fun replace :: "ustr \<Rightarrow> ustr \<Rightarrow> ustr \<Rightarrow> ustr" where
  "replace [] old new = (if old = [] then new else [])"
| "replace (c # cs) old new =
     (if old = [] then new @ c # replace cs old new
      else if prefix old (c # cs) then new @ replace (drop (length old - 1) cs) old new
      else c # replace cs old new)"

text \<open>\<open>s.strip()\<close> and \<open>s.strip(chars)\<close>.\<close>

definition strip_with :: "(nat \<Rightarrow> bool) \<Rightarrow> ustr \<Rightarrow> ustr" where
  "strip_with p s = rev (dropWhile p (rev (dropWhile p s)))"

definition strip :: "ustr \<Rightarrow> ustr" where
  "strip s = strip_with isspace s"

definition strip_chars :: "ustr \<Rightarrow> ustr \<Rightarrow> ustr" where
  "strip_chars chars s = strip_with (\<lambda>c. c \<in> set chars) s"

text \<open>\<open>x or ""\<close> for a value that is a string or \<open>None\<close>.\<close>

definition or_empty :: "ustr option \<Rightarrow> ustr" where
  "or_empty x = (case x of None \<Rightarrow> [] | Some s \<Rightarrow> s)"


section \<open>geocodificar\_casillas\_gto\_v2.py: text utilities\<close>

definition enie_min :: ustr where "enie_min = [241]"
definition enie_may :: ustr where "enie_may = [209]"
definition tok_min :: ustr where "tok_min = lit ''__enie_min__''"
definition tok_may :: ustr where "tok_may = lit ''__enie_may__''"

definition strip_accents_keep_enie :: "ucd \<Rightarrow> ustr \<Rightarrow> ustr" where
  "strip_accents_keep_enie db text =
     (if text = [] then []
      else
        let text1 = collapse_ws text;
            text2 = replace text1 enie_min tok_min;
            text3 = replace text2 enie_may tok_may;
            normalized = nfd_of db text3;
            without_marks = filter (\<lambda>ch. \<not> is_Mn db ch) normalized;
            restored1 = replace without_marks tok_min enie_min
        in replace restored1 tok_may enie_may)"

definition cortes :: "ustr list" where
  "cortes = map lit
     ['' A 50 METROS'', '' A 100 METROS'', '' A 200 METROS'', '' A UN COSTADO'',
      '' FRENTE A '', '' FRENTE AL '', '' ENTRE CALLE'', '' ENTRE LA CALLE'',
      '' ESQUINA '', '' ESQ. '', '' ESQ '', '' SOBRE LA CARRETERA'',
      '' SOBRE CARRETERA'', '' LADO DERECHO'', '' LADO IZQUIERDO'', '' A ESPALDAS'']"

text \<open>
  The loop \<open>for marca in cortes\<close> with its \<open>break\<close>: the first phrase of the list that
  occurs decides the cut.
\<close>

fun cortar :: "ustr \<Rightarrow> ustr list \<Rightarrow> ustr" where
  "cortar txt [] = txt"
| "cortar txt (marca # rest) =
     (case find_sub txt marca of
        Some idx \<Rightarrow> take idx txt
      | None \<Rightarrow> cortar txt rest)"

definition limpiar_frases_basura :: "ucd \<Rightarrow> ustr \<Rightarrow> ustr" where
  "limpiar_frases_basura db domicilio =
     (if domicilio = [] then []
      else
        let txt = upper db domicilio;
            txt = cortar txt cortes;
            txt = replace txt (lit '' SIN NUMERO'') [];
            txt = replace txt (lit '' S/N'') [];
            txt = collapse_ws txt
        in strip_chars (lit '', '') txt)"

definition construir_domicilio_corto :: "ucd \<Rightarrow> ustr \<Rightarrow> ustr option \<Rightarrow> ustr" where
  "construir_domicilio_corto db domicilio_limpio localidad =
     (let partes = (if domicilio_limpio \<noteq> [] then [domicilio_limpio] else []);
          loc = strip (or_empty localidad);
          partes = (if loc \<noteq> [] \<and> \<not> contains (upper db domicilio_limpio) (upper db loc)
                    then partes @ [loc] else partes)
      in join (lit '', '') partes)"

text \<open>The three tiers of \<open>armar_queries_geocod\<close> and its terminal fallback.\<close>

definition tier1 :: "ustr \<Rightarrow> ustr \<Rightarrow> ustr list" where
  "tier1 domicilio_corto muni =
     (if domicilio_corto \<noteq> [] \<and> muni \<noteq> []
        then [domicilio_corto @ lit '', '' @ muni @ lit '', Guanajuato, Mexico'']
      else if domicilio_corto \<noteq> []
        then [domicilio_corto @ lit '', Guanajuato, Mexico'']
      else [])"

definition tier2 :: "ustr \<Rightarrow> ustr \<Rightarrow> ustr list" where
  "tier2 loc muni =
     (if loc \<noteq> [] \<and> muni \<noteq> [] then [loc @ lit '', '' @ muni @ lit '', Guanajuato, Mexico'']
      else if loc \<noteq> [] then [loc @ lit '', Guanajuato, Mexico'']
      else [])"

definition tier3 :: "ustr \<Rightarrow> ustr list" where
  "tier3 muni = (if muni \<noteq> [] then [muni @ lit '', Guanajuato, Mexico''] else [])"

definition fallback :: ustr where
  "fallback = lit ''Guanajuato, Mexico''"

text \<open>The loop that removes duplicates, with its set \<open>seen\<close>.\<close>

fun unique_from :: "ustr set \<Rightarrow> ustr list \<Rightarrow> ustr list" where
  "unique_from seen [] = []"
| "unique_from seen (q # qs) =
     (if q \<notin> seen then q # unique_from (insert q seen) qs else unique_from seen qs)"

definition armar_queries_geocod :: "ucd \<Rightarrow> ustr \<Rightarrow> ustr option \<Rightarrow> ustr option \<Rightarrow> ustr list" where
  "armar_queries_geocod db domicilio_corto localidad municipio =
     (let loc = strip (or_empty localidad);
          muni = strip (or_empty municipio);
          queries = tier1 domicilio_corto muni @ tier2 loc muni @ tier3 muni @ [fallback];
          queries_norm = map (strip_accents_keep_enie db) queries
      in unique_from {} queries_norm)"

section \<open>The external geocoder\<close>

text \<open>
  \<open>geocode(q)\<close> is a call to an external service: it returns a location, returns
  \<open>None\<close>, or raises. Its answer may depend on everything asked before, so the model
  passes it the calls made so far (oldest first); the run records every call in that log.
  A location object is always truthy, so \<open>if loc\<close> tests for \<open>None\<close>.
\<close>

datatype 'l outcome = Raised | NoMatch | Located 'l

type_synonym 'l geocoder = "ustr list \<Rightarrow> ustr \<Rightarrow> 'l outcome"

text \<open>
  A GeoJSON Feature: \<open>geometry\<close> is \<open>None\<close> for \<open>null\<close> and \<open>Some l\<close> for the Point
  with the coordinates of \<open>l\<close>; \<open>properties\<close> is the dictionary of the feature, with
  string values. Every feature of the input has this member, as GeoJSON requires and as
  the preparation script writes it.
\<close>

record 'l feature =
  geometry :: "'l option"
  properties :: "string \<rightharpoonup> ustr"


section \<open>geocodificar\_casillas\_gto\_v2.py: the run\<close>

text \<open>A row of the CSV file, as \<open>csv.DictReader\<close> gives it (a missing column is \<open>None\<close>).\<close>

record row =
  SECCION :: "ustr option"
  CASILLA :: "ustr option"
  LOCALIDAD :: "ustr option"
  DOMICILIO :: "ustr option"

text \<open>
  The loop \<open>for q in queries\<close>. The state is the call log and \<open>geocod_query\<close>; the loop
  ends with \<open>(log, geometry, geocod_status, geocod_query)\<close>.
\<close>

fun probar_queries ::
  "'l geocoder \<Rightarrow> ustr list \<Rightarrow> ustr \<Rightarrow> ustr list \<Rightarrow> ustr list \<times> 'l option \<times> ustr \<times> ustr"
where
  "probar_queries geocode log geocod_query [] = (log, None, lit ''SIN_MATCH'', geocod_query)"
| "probar_queries geocode log geocod_query (q # qs) =
     (if q = [] then probar_queries geocode log geocod_query qs
      else
        (case geocode log q of
           Raised \<Rightarrow> probar_queries geocode (log @ [q]) geocod_query qs
         | Located loc \<Rightarrow> (log @ [q], Some loc, lit ''OK'', q)
         | NoMatch \<Rightarrow> probar_queries geocode (log @ [q]) q qs))"

text \<open>The body of \<open>for idx, row in enumerate(rows)\<close>: one row gives one feature.\<close>

definition procesar_fila ::
  "ucd \<Rightarrow> (ustr \<rightharpoonup> ustr) \<Rightarrow> 'l geocoder \<Rightarrow> ustr list \<Rightarrow> row \<Rightarrow> ustr list \<times> 'l feature"
where
  "procesar_fila db mapa_muni geocode log r =
     (let seccion = strip (or_empty (SECCION r));
          casilla = strip (or_empty (CASILLA r));
          localidad = strip (or_empty (LOCALIDAD r));
          domicilio_original = strip (or_empty (DOMICILIO r));
          municipio = (case mapa_muni seccion of Some m \<Rightarrow> m | None \<Rightarrow> []);
          dom_limpio = limpiar_frases_basura db domicilio_original;
          dom_corto = construir_domicilio_corto db dom_limpio (Some localidad);
          props = [''SECCION'' \<mapsto> seccion, ''CASILLA_ID'' \<mapsto> casilla,
                   ''LOCALIDAD'' \<mapsto> localidad, ''DOMICILIO'' \<mapsto> domicilio_original,
                   ''DOMICILIO_LIMPIO'' \<mapsto> dom_limpio, ''DOMICILIO_CORTO'' \<mapsto> dom_corto];
          queries = armar_queries_geocod db dom_corto (Some localidad) (Some municipio)
      in case probar_queries geocode log [] queries of
           (log', geom, geocod_status, geocod_query) \<Rightarrow>
             (log', \<lparr> geometry = geom,
                      properties = props(''GEOCOD_STATUS'' \<mapsto> geocod_status,
                                         ''GEOCOD_QUERY'' \<mapsto> geocod_query) \<rparr>))"

fun main_v2 ::
  "ucd \<Rightarrow> (ustr \<rightharpoonup> ustr) \<Rightarrow> 'l geocoder \<Rightarrow> ustr list \<Rightarrow> row list \<Rightarrow> ustr list \<times> 'l feature list"
where
  "main_v2 db mapa_muni geocode log [] = (log, [])"
| "main_v2 db mapa_muni geocode log (r # rs) =
     (case procesar_fila db mapa_muni geocode log r of
        (log1, f) \<Rightarrow>
          (case main_v2 db mapa_muni geocode log1 rs of
             (log2, fs) \<Rightarrow> (log2, f # fs)))"


section \<open>Regular expressions of the first variant\<close>

text \<open>
  \<open>re\<close> matches by backtracking: a greedy quantifier tries its longest repetition first
  and gives characters back one at a time. Each piece of a pattern takes the rest of the
  pattern as a continuation \<open>k\<close>; the first alternative whose continuation succeeds is
  the match.
\<close>

fun first_some :: "('a \<Rightarrow> 'b option) \<Rightarrow> 'a list \<Rightarrow> 'b option" where
  "first_some f [] = None"
| "first_some f (x # xs) = (case f x of Some y \<Rightarrow> Some y | None \<Rightarrow> first_some f xs)"

text \<open>The repetition counts from \<open>hi\<close> down to \<open>lo\<close>.\<close>

definition greedy :: "nat \<Rightarrow> nat \<Rightarrow> nat list" where
  "greedy hi lo = rev [lo ..< Suc hi]"

definition run :: "(nat \<Rightarrow> bool) \<Rightarrow> ustr \<Rightarrow> nat" where
  "run p s = length (takeWhile p s)"

text \<open>A literal.\<close>

definition rx_lit :: "ustr \<Rightarrow> (ustr \<Rightarrow> 'a option) \<Rightarrow> ustr \<Rightarrow> 'a option" where
  "rx_lit l k s = (if prefix l s then k (drop (length l) s) else None)"

text \<open>\<open>p*\<close> and \<open>p+\<close> for a character class \<open>p\<close>.\<close>

definition rx_star :: "(nat \<Rightarrow> bool) \<Rightarrow> (ustr \<Rightarrow> 'a option) \<Rightarrow> ustr \<Rightarrow> 'a option" where
  "rx_star p k s = first_some (\<lambda>n. k (drop n s)) (greedy (run p s) 0)"

definition rx_plus :: "(nat \<Rightarrow> bool) \<Rightarrow> (ustr \<Rightarrow> 'a option) \<Rightarrow> ustr \<Rightarrow> 'a option" where
  "rx_plus p k s = first_some (\<lambda>n. k (drop n s)) (greedy (run p s) 1)"

text \<open>The group \<open>(p+)\<close>: the continuation also receives the text of the group.\<close>

definition rx_group_plus ::
  "(nat \<Rightarrow> bool) \<Rightarrow> (ustr \<Rightarrow> ustr \<Rightarrow> 'a option) \<Rightarrow> ustr \<Rightarrow> 'a option" where
  "rx_group_plus p k s = first_some (\<lambda>n. k (take n s) (drop n s)) (greedy (run p s) 1)"

text \<open>The group \<open>(\d{5})\<close>.\<close>

definition rx_group_d5 ::
  "ucd \<Rightarrow> (ustr \<Rightarrow> ustr \<Rightarrow> 'a option) \<Rightarrow> ustr \<Rightarrow> 'a option" where
  "rx_group_d5 db k s =
     (if 5 \<le> length s \<and> list_all (is_decimal db) (take 5 s) then k (take 5 s) (drop 5 s)
      else None)"

text \<open>\<open>re.search\<close>: the match at the leftmost position where the pattern matches.\<close>

fun search :: "(ustr \<Rightarrow> 'a option) \<Rightarrow> ustr \<Rightarrow> 'a option" where
  "search m [] = m []"
| "search m (c # cs) = (case m (c # cs) of Some r \<Rightarrow> Some r | None \<Rightarrow> search m cs)"

definition not_comma :: "nat \<Rightarrow> bool" where
  "not_comma c \<longleftrightarrow> c \<noteq> 44"

text \<open>\<open>,\s*(\d{5}),\s*([^,]+),\s*GUANAJUATO\<close>, giving the groups 1 and 2.\<close>

definition rx_cp_mpio :: "ucd \<Rightarrow> ustr \<Rightarrow> (ustr \<times> ustr) option" where
  "rx_cp_mpio db =
     rx_lit (lit '','') (rx_star isspace (rx_group_d5 db (\<lambda>g1.
     rx_lit (lit '','') (rx_star isspace (rx_group_plus not_comma (\<lambda>g2.
     rx_lit (lit '','') (rx_star isspace (rx_lit (lit ''GUANAJUATO'') (\<lambda>_.
     Some (g1, g2))))))))))"

text \<open>\<open>LOCALIDAD\s+([^,]+)\<close>, giving group 1.\<close>

definition rx_localidad :: "ustr \<Rightarrow> ustr option" where
  "rx_localidad =
     rx_lit (lit ''LOCALIDAD'') (rx_plus isspace (rx_group_plus not_comma (\<lambda>g1 _. Some g1)))"

text \<open>\<open>,\s*([^,]+),\s*(\d{5}),\s*ABASOLO\<close>, giving group 1.\<close>

definition rx_loc_abasolo :: "ucd \<Rightarrow> ustr \<Rightarrow> ustr option" where
  "rx_loc_abasolo db =
     rx_lit (lit '','') (rx_star isspace (rx_group_plus not_comma (\<lambda>g1.
     rx_lit (lit '','') (rx_star isspace (rx_group_d5 db (\<lambda>g2.
     rx_lit (lit '','') (rx_star isspace (rx_lit (lit ''ABASOLO'') (\<lambda>_.
     Some g1)))))))))"


section \<open>geocodificar\_casillas.py\<close>

definition extraer_cp_y_mpio :: "ucd \<Rightarrow> ustr \<Rightarrow> ustr option \<times> ustr option" where
  "extraer_cp_y_mpio db dom_full =
     (if dom_full = [] then (None, None)
      else
        (case search (rx_cp_mpio db) (upper db dom_full) of
           Some (cp, g2) \<Rightarrow> (Some cp, Some (title_of db g2))
         | None \<Rightarrow> (None, None)))"

definition LOCALIDAD_CORR :: "ustr \<rightharpoonup> ustr" where
  "LOCALIDAD_CORR =
     [lit ''ESTACI'' @ [211] @ lit ''N JOAQU'' @ [211] @ lit ''N''
        \<mapsto> lit ''Estaci'' @ [243] @ lit ''n Joaqu'' @ [237] @ lit ''n'',
      lit ''SAN JOS DE GONZ'' @ [924] @ lit ''LEZ''
        \<mapsto> lit ''San Jos'' @ [233] @ lit '' de Gonz'' @ [225] @ lit ''lez'',
      lit ''ALTO DE ALCOCER'' \<mapsto> lit ''Alto de Alcocer'']"

definition extraer_localidad :: "ucd \<Rightarrow> ustr \<Rightarrow> ustr option" where
  "extraer_localidad db dom_full =
     (if dom_full = [] then None
      else
        let txt = upper db dom_full;
            found =
              (case search rx_localidad txt of
                 Some g1 \<Rightarrow> Some (upper db (strip g1))
               | None \<Rightarrow>
                   (case search (rx_loc_abasolo db) txt of
                      None \<Rightarrow> None
                    | Some g1 \<Rightarrow> Some (upper db (strip g1))))
        in case found of
             None \<Rightarrow> None
           | Some loc \<Rightarrow>
               Some (title_of db (case LOCALIDAD_CORR loc of Some c \<Rightarrow> c | None \<Rightarrow> loc)))"

text \<open>A value is truthy when it is neither \<open>None\<close> nor the empty string.\<close>

definition truthy :: "ustr option \<Rightarrow> bool" where
  "truthy x \<longleftrightarrow> x \<noteq> None \<and> x \<noteq> Some []"

definition estado_pais :: ustr where
  "estado_pais = lit '', Guanajuato, M'' @ [233] @ lit ''xico''"

definition build_query :: "ucd \<Rightarrow> (string \<rightharpoonup> ustr) \<Rightarrow> ustr option" where
  "build_query db props =
     (let dom_corto = or_empty (props ''DOMICILIO_CORTO'');
          dom_limpio = or_empty (props ''DOMICILIO_LIMPIO'');
          dom_full = or_empty (props ''DOMICILIO'')
      in if dom_corto = [] \<and> dom_limpio = [] \<and> dom_full = [] then None
         else
           let mpio = snd (extraer_cp_y_mpio db dom_full);
               localidad = extraer_localidad db dom_full
           in if truthy localidad \<and> truthy mpio
                then Some (or_empty localidad @ lit '', '' @ or_empty mpio @ estado_pais)
              else if truthy mpio then Some (or_empty mpio @ estado_pais)
              else
                let base = (if dom_corto \<noteq> [] then dom_corto
                            else if dom_limpio \<noteq> [] then dom_limpio else dom_full)
                in Some (base @ estado_pais))"

text \<open>
  The state of the run: the call log and the dictionary \<open>cache\<close>, which maps a query to
  the location found for it or to \<open>None\<close>.
\<close>

record 'l estado =
  llamadas :: "ustr list"
  cache :: "ustr \<rightharpoonup> 'l option"

text \<open>The body of \<open>for i, feat in enumerate(features)\<close>.\<close>

definition procesar_feature ::
  "ucd \<Rightarrow> 'l geocoder \<Rightarrow> 'l estado \<Rightarrow> 'l feature \<Rightarrow> 'l estado \<times> 'l feature" where
  "procesar_feature db geocode st feat =
     (let props = properties feat;
          q = build_query db props
      in if \<not> truthy q
           then (st, feat\<lparr> properties := props(''GEOCOD_STATUS'' \<mapsto> lit ''SIN_DIRECCION''),
                            geometry := None \<rparr>)
         else
           let q = or_empty q;
               (st, loc) =
                 (case cache st q of
                    Some loc \<Rightarrow> (st, loc)
                  | None \<Rightarrow>
                      let loc = (case geocode (llamadas st) q of
                                   Located l \<Rightarrow> Some l
                                 | NoMatch \<Rightarrow> None
                                 | Raised \<Rightarrow> None)
                      in (\<lparr> llamadas = llamadas st @ [q], cache = (cache st)(q \<mapsto> loc) \<rparr>, loc))
           in case loc of
                Some l \<Rightarrow>
                  (st, feat\<lparr> geometry := Some l,
                             properties := props(''GEOCOD_STATUS'' \<mapsto> lit ''OK'',
                                                ''GEOCOD_QUERY'' \<mapsto> q) \<rparr>)
              | None \<Rightarrow>
                  (st, feat\<lparr> geometry := None,
                             properties := props(''GEOCOD_STATUS'' \<mapsto> lit ''SIN_MATCH'',
                                                ''GEOCOD_QUERY'' \<mapsto> q) \<rparr>))"

fun main_loop :: "ucd \<Rightarrow> 'l geocoder \<Rightarrow> 'l estado \<Rightarrow> 'l feature list \<Rightarrow> 'l estado \<times> 'l feature list"
where
  "main_loop db geocode st [] = (st, [])"
| "main_loop db geocode st (feat # feats) =
     (case procesar_feature db geocode st feat of
        (st1, f) \<Rightarrow>
          (case main_loop db geocode st1 feats of
             (st2, fs) \<Rightarrow> (st2, f # fs)))"

text \<open>\<open>main\<close> starts with an empty cache and no call made.\<close>

definition main_v1 :: "ucd \<Rightarrow> 'l geocoder \<Rightarrow> 'l feature list \<Rightarrow> 'l estado \<times> 'l feature list" where
  "main_v1 db geocode features =
     main_loop db geocode \<lparr> llamadas = [], cache = Map.empty \<rparr> features"


section \<open>preparar\_casillas\_para\_geocodificar - copia.py\<close>

text \<open>
  \<open>re.sub(r"^DOMICILIO\s*:\s*", "", txt)\<close>: the pattern can only match at the start of
  the text; the match is removed.
\<close>

definition quitar_etiqueta :: "ustr \<Rightarrow> ustr" where
  "quitar_etiqueta txt =
     (case rx_lit (lit ''DOMICILIO'') (rx_star isspace (rx_lit (lit '':'')
             (rx_star isspace (\<lambda>rest. Some rest)))) txt of
        Some rest \<Rightarrow> rest
      | None \<Rightarrow> txt)"

text \<open>\<open>re.sub(r"\s+", " ", txt)\<close>: every maximal run of whitespace becomes one space.\<close>

fun un_espacio :: "bool \<Rightarrow> ustr \<Rightarrow> ustr" where
  "un_espacio in_run [] = []"
| "un_espacio in_run (c # cs) =
     (if isspace c then (if in_run then un_espacio True cs else 32 # un_espacio True cs)
      else c # un_espacio False cs)"

text \<open>The dictionary \<open>reemplazos\<close>, in its insertion order.\<close>

definition reemplazos :: "(ustr \<times> ustr) list" where
  "reemplazos =
     [(lit '' NO. '', lit '' ''), (lit '' NUM. '', lit '' ''), (lit '' NUMERO '', lit '' ''),
      (lit '' N'' @ [218] @ lit ''M. '', lit '' ''), (lit '' S/N'', lit '' SN''),
      (lit ''C/'', lit ''CALLE ''), (lit '' C. '', lit '' CALLE '')]"

definition limpiar_domicilio :: "ucd \<Rightarrow> ustr \<Rightarrow> ustr" where
  "limpiar_domicilio db raw =
     (if raw = [] then []
      else
        let txt = strip (upper db raw);
            txt = quitar_etiqueta txt;
            txt = un_espacio False txt;
            txt = fold (\<lambda>(k, v) t. replace t k v) reemplazos txt
        in strip_chars (lit '',.;- '') txt)"

definition marcadores :: "ustr list" where
  "marcadores = map lit
     ['' COLONIA '', '' COL. '', '' FRACCIONAMIENTO '', '' FRACC. '', '' BARRIO '',
      '' ZONA '', '' COMUNIDAD '', '' COL '', '' FRACC '']"

text \<open>The loop of \<open>domicilio_corto\<close> keeps the lowest index at which a marker occurs.\<close>

fun primer_corte :: "ustr \<Rightarrow> ustr list \<Rightarrow> nat \<Rightarrow> nat" where
  "primer_corte base [] corte_pos = corte_pos"
| "primer_corte base (mk # mks) corte_pos =
     (case find_sub base mk of
        Some idx \<Rightarrow> primer_corte base mks (if idx < corte_pos then idx else corte_pos)
      | None \<Rightarrow> primer_corte base mks corte_pos)"

definition domicilio_corto :: "ustr \<Rightarrow> ustr" where
  "domicilio_corto txt =
     (if txt = [] then []
      else
        let base = lit '' '' @ txt @ lit '' '';
            corte_pos = primer_corte base marcadores (length base);
            corto = strip (take corte_pos base)
        in strip_chars (lit '',.;- '') corto)"


section \<open>A concrete character database\<close>

text \<open>
  For evaluating the model on concrete text: the Unicode tables restricted to the code
  points up to U+00FF (Basic Latin and Latin-1 Supplement) and the combining diacritical
  marks U+0300 to U+036F. Every other code point is left alone. Over Latin-1 text no
  canonical reordering arises, so NFD is the code point by code point decomposition.
\<close>

definition upper_latin1 :: "nat \<Rightarrow> ustr" where
  "upper_latin1 c =
     (if 97 \<le> c \<and> c \<le> 122 then [c - 32]
      else if c = 181 then [924]
      else if c = 223 then [83, 83]
      else if 224 \<le> c \<and> c \<le> 254 \<and> c \<noteq> 247 then [c - 32]
      else if c = 255 then [376]
      else [c])"

definition lower_latin1 :: "nat \<Rightarrow> ustr" where
  "lower_latin1 c =
     (if 65 \<le> c \<and> c \<le> 90 then [c + 32]
      else if 192 \<le> c \<and> c \<le> 222 \<and> c \<noteq> 215 then [c + 32]
      else [c])"

definition titlecase_latin1 :: "nat \<Rightarrow> ustr" where
  "titlecase_latin1 c = (if c = 223 then [83, 115] else upper_latin1 c)"

definition cased_latin1 :: "nat \<Rightarrow> bool" where
  "cased_latin1 c \<longleftrightarrow>
     (65 \<le> c \<and> c \<le> 90) \<or> (97 \<le> c \<and> c \<le> 122) \<or> c = 170 \<or> c = 181 \<or> c = 186 \<or>
     (192 \<le> c \<and> c \<le> 255 \<and> c \<noteq> 215 \<and> c \<noteq> 247)"

text \<open>\<open>str.title\<close>: a cased code point is title-cased unless a cased one precedes it.\<close>

fun title_go :: "bool \<Rightarrow> ustr \<Rightarrow> ustr" where
  "title_go previous_is_cased [] = []"
| "title_go previous_is_cased (c # cs) =
     (if previous_is_cased then lower_latin1 c else titlecase_latin1 c)
     @ title_go (cased_latin1 c) cs"

text \<open>Canonical decompositions of the capital letters; the small ones are 32 above.\<close>

definition decomp_capitals :: "(nat \<times> ustr) list" where
  "decomp_capitals =
     [(192, [65, 768]), (193, [65, 769]), (194, [65, 770]), (195, [65, 771]),
      (196, [65, 776]), (197, [65, 778]), (199, [67, 807]),
      (200, [69, 768]), (201, [69, 769]), (202, [69, 770]), (203, [69, 776]),
      (204, [73, 768]), (205, [73, 769]), (206, [73, 770]), (207, [73, 776]),
      (209, [78, 771]),
      (210, [79, 768]), (211, [79, 769]), (212, [79, 770]), (213, [79, 771]),
      (214, [79, 776]),
      (217, [85, 768]), (218, [85, 769]), (219, [85, 770]), (220, [85, 776]),
      (221, [89, 769])]"

definition decomp_latin1 :: "nat \<Rightarrow> ustr" where
  "decomp_latin1 c =
     (if c = 255 then [121, 776]
      else if 192 \<le> c \<and> c \<le> 221 then
        (case map_of decomp_capitals c of Some d \<Rightarrow> d | None \<Rightarrow> [c])
      else if 224 \<le> c \<and> c \<le> 253 then
        (case map_of decomp_capitals (c - 32) of
           Some d \<Rightarrow> [hd d + 32] @ tl d
         | None \<Rightarrow> [c])
      else [c])"

definition latin1 :: ucd where
  "latin1 =
     \<lparr> upper_of = upper_latin1,
       title_of = title_go False,
       nfd_of = (\<lambda>s. concat (map decomp_latin1 s)),
       is_Mn = (\<lambda>c. 768 \<le> c \<and> c \<le> 879),
       is_decimal = (\<lambda>c. 48 \<le> c \<and> c \<le> 57) \<rparr>"


section \<open>Notions used in the statements\<close>

text \<open>
  What the \<open>try\<close>/\<open>except\<close> around \<open>geocode(q)\<close> leaves in \<open>loc\<close>: the location, or
  \<open>None\<close> when the call found nothing or raised.
\<close>

definition resultado :: "'l outcome \<Rightarrow> 'l option" where
  "resultado r = (case r of Located l \<Rightarrow> Some l | NoMatch \<Rightarrow> None | Raised \<Rightarrow> None)"

text \<open>
  The answer to the first call for \<open>q\<close> in a call log: the geocoder is asked with the
  calls that precede that first call.
\<close>

definition primera_respuesta :: "'l geocoder \<Rightarrow> ustr list \<Rightarrow> ustr \<Rightarrow> 'l option" where
  "primera_respuesta geocode log q = resultado (geocode (takeWhile (\<lambda>x. x \<noteq> q) log) q)"

text \<open>
  The invariant of the cache of the first variant: the queries sent to the geocoder are
  pairwise different, they are exactly the keys of the cache, and the cache holds for
  each of them the answer to its call.
\<close>

definition cache_inv :: "'l geocoder \<Rightarrow> 'l estado \<Rightarrow> bool" where
  "cache_inv geocode st \<longleftrightarrow>
     distinct (llamadas st) \<and> dom (cache st) = set (llamadas st) \<and>
     (\<forall>q \<in> set (llamadas st). cache st q = Some (primera_respuesta geocode (llamadas st) q))"

text \<open>
  A record \<open>feat\<close> and the feature \<open>f\<close> written for it, against the call log of the run:
  when the record has a query, the query was sent to the geocoder, and the geometry of
  \<open>f\<close> is the answer to the first call for it; a record without query has no geometry.
\<close>

definition resuelto :: "ucd \<Rightarrow> 'l geocoder \<Rightarrow> ustr list \<Rightarrow> 'l feature \<Rightarrow> 'l feature \<Rightarrow> bool" where
  "resuelto db geocode log feat f \<longleftrightarrow>
     (if truthy (build_query db (properties feat))
      then or_empty (build_query db (properties feat)) \<in> set log \<and>
           geometry f =
             primera_respuesta geocode log (or_empty (build_query db (properties feat))) \<and>
           properties f ''GEOCOD_QUERY'' = Some (or_empty (build_query db (properties feat)))
      else geometry f = None)"

text \<open>A feature carries one of the three statuses, and a geometry exactly when it is OK.\<close>

definition status_ok :: "'l feature \<Rightarrow> bool" where
  "status_ok f \<longleftrightarrow>
     (\<exists>s. properties f ''GEOCOD_STATUS'' = Some s \<and>
          (s = lit ''OK'' \<or> s = lit ''SIN_MATCH'' \<or> s = lit ''SIN_DIRECCION'') \<and>
          (geometry f \<noteq> None \<longleftrightarrow> s = lit ''OK''))"


text \<open>
  What C8 describes, in the claim's words: the text is cut at every occurrence of the
  letters U+00F1 and U+00D1; each piece between them is decomposed and loses its
  combining marks; the two letters stay where they are. \<open>pre\<close> is the piece being read.
\<close>

definition sin_marcas :: "ucd \<Rightarrow> ustr \<Rightarrow> ustr" where
  "sin_marcas db p = filter (\<lambda>ch. \<not> is_Mn db ch) (nfd_of db p)"

fun keep_enie_acc :: "ucd \<Rightarrow> ustr \<Rightarrow> ustr \<Rightarrow> ustr" where
  "keep_enie_acc db pre [] = sin_marcas db pre"
| "keep_enie_acc db pre (c # cs) =
     (if c = 241 \<or> c = 209 then sin_marcas db pre @ c # keep_enie_acc db [] cs
      else keep_enie_acc db (pre @ [c]) cs)"

definition keep_enie_spec :: "ucd \<Rightarrow> ustr \<Rightarrow> ustr" where
  "keep_enie_spec db t = keep_enie_acc db [] t"

text \<open>The text after both letters have been replaced by their placeholders.\<close>

definition marca :: "nat \<Rightarrow> ustr" where
  "marca c = (if c = 241 then tok_min else if c = 209 then tok_may else [c])"

text \<open>
  Facts of the Unicode tables that the placeholder technique relies on: a code point
  below 128 has no decomposition, is not reordered and separates what NFD does on its
  two sides; NFD produces no underscore; no ASCII code point and neither of the two
  letters is a combining mark.
\<close>

definition ascii_inert :: "ucd \<Rightarrow> bool" where
  "ascii_inert db \<longleftrightarrow>
     nfd_of db [] = [] \<and>
     (\<forall>xs c ys. c < 128 \<longrightarrow> nfd_of db (xs @ c # ys) = nfd_of db xs @ c # nfd_of db ys) \<and>
     (\<forall>xs. 95 \<notin> set xs \<longrightarrow> 95 \<notin> set (nfd_of db xs)) \<and>
     (\<forall>c. c < 128 \<longrightarrow> \<not> is_Mn db c) \<and> \<not> is_Mn db 241 \<and> \<not> is_Mn db 209"

text \<open>
  Texts in which every underscore belongs to a placeholder: the shape of the marked text
  when the input had no underscore.
\<close>

inductive tokenized :: "ustr \<Rightarrow> bool" where
  tok_nil: "tokenized []"
| tok_chr: "c \<noteq> 95 \<Longrightarrow> tokenized s \<Longrightarrow> tokenized (c # s)"
| tok_min: "tokenized s \<Longrightarrow> tokenized (tok_min @ s)"
| tok_may: "tokenized s \<Longrightarrow> tokenized (tok_may @ s)"


text \<open>
  A text in which no phrase of \<open>cortes\<close> and neither of the two markers for a missing
  street number occurs.
\<close>

definition sin_frases :: "ustr \<Rightarrow> bool" where
  "sin_frases y \<longleftrightarrow>
     (\<forall>m \<in> set cortes. \<not> contains y m) \<and>
     \<not> contains y (lit '' SIN NUMERO'') \<and> \<not> contains y (lit '' S/N'')"

text \<open>
  A fact of the case mapping of Unicode: the space is its own upper case, and so is
  every code point that an upper-case mapping produces.
\<close>

definition upper_estable :: "ucd \<Rightarrow> bool" where
  "upper_estable db \<longleftrightarrow>
     upper_of db 32 = [32] \<and> (\<forall>c. \<forall>d \<in> set (upper_of db c). upper_of db d = [d])"

text \<open>Lists of words: no word is empty and no word contains whitespace.\<close>

definition palabras :: "ustr list \<Rightarrow> bool" where
  "palabras ws \<longleftrightarrow> (\<forall>w \<in> set ws. w \<noteq> [] \<and> (\<forall>c \<in> set w. \<not> isspace c))"


section \<open>Properties of the regular expressions and of the first variant\<close>

lemma first_some_SomeD: "first_some f xs = Some y \<Longrightarrow> \<exists>x \<in> set xs. f x = Some y"
  by (induction xs) (auto split: option.splits)

lemma search_SomeD: "search m s = Some r \<Longrightarrow> \<exists>t. m t = Some r"
  by (induction s) (auto split: option.splits)

lemma rx_cp_mpio_group1:
  assumes "rx_cp_mpio db t = Some (cp, g2)"
  shows "length cp = 5 \<and> list_all (is_decimal db) cp"
  using assms
  unfolding rx_cp_mpio_def rx_lit_def rx_star_def rx_group_d5_def rx_group_plus_def
  by (auto split: if_splits dest!: first_some_SomeD)

text \<open>
  C9: \<open>extraer_cp_y_mpio\<close> returns either no postal code and no municipality, or both of
  them, and then the postal code is five decimal digits.
\<close>

theorem extraer_cp_y_mpio_both_or_neither:
  "extraer_cp_y_mpio db dom_full = (None, None) \<or>
   (\<exists>cp mpio. extraer_cp_y_mpio db dom_full = (Some cp, Some mpio) \<and>
      length cp = 5 \<and> list_all (is_decimal db) cp)"
proof (cases "dom_full = []")
  case True
  then show ?thesis by (simp add: extraer_cp_y_mpio_def)
next
  case False
  show ?thesis
  proof (cases "search (rx_cp_mpio db) (upper db dom_full)")
    case None
    with False show ?thesis by (simp add: extraer_cp_y_mpio_def)
  next
    case (Some r)
    obtain cp g2 where r: "r = (cp, g2)" by (cases r)
    from search_SomeD [OF Some] obtain t where "rx_cp_mpio db t = Some r" ..
    with r have "rx_cp_mpio db t = Some (cp, g2)" by simp
    then have "length cp = 5 \<and> list_all (is_decimal db) cp"
      by (rule rx_cp_mpio_group1)
    with False Some r show ?thesis by (simp add: extraer_cp_y_mpio_def)
  qed
qed

text \<open>
  C10: in the first variant \<open>build_query\<close> gives one query or none, and the step for one
  record makes no call to the geocoder or exactly one, for that query.
\<close>

theorem build_query_single_lookup:
  "llamadas (fst (procesar_feature db geocode st feat)) = llamadas st \<or>
   (\<exists>q. build_query db (properties feat) = Some q \<and>
        llamadas (fst (procesar_feature db geocode st feat)) = llamadas st @ [q])"
  by (cases "build_query db (properties feat)")
     (auto simp: procesar_feature_def Let_def truthy_def or_empty_def
           split: option.splits outcome.splits)


section \<open>The cache of the first variant\<close>

lemma primera_respuesta_append:
  assumes "q \<in> set log"
  shows "primera_respuesta geocode (log @ extra) q = primera_respuesta geocode log q"
  using assms by (simp add: primera_respuesta_def takeWhile_append1)

lemma primera_respuesta_new:
  assumes "q \<notin> set log"
  shows "primera_respuesta geocode (log @ [q]) q = resultado (geocode log q)"
proof -
  have "takeWhile (\<lambda>x. x \<noteq> q) log = log"
    using assms by (auto simp: takeWhile_eq_all_conv)
  then show ?thesis
    by (simp add: primera_respuesta_def takeWhile_append2 assms)
qed

lemma resuelto_append:
  assumes "resuelto db geocode log feat f"
  shows "resuelto db geocode (log @ extra) feat f"
  using assms by (auto simp: resuelto_def primera_respuesta_append split: if_splits)

text \<open>One step of the loop keeps the invariant, only extends the log, and resolves its record.\<close>

lemma procesar_feature_step:
  assumes inv: "cache_inv geocode st"
    and step: "procesar_feature db geocode st feat = (st', f)"
  shows "cache_inv geocode st' \<and> (\<exists>extra. llamadas st' = llamadas st @ extra) \<and>
         resuelto db geocode (llamadas st') feat f"
proof (cases "truthy (build_query db (properties feat))")
  case False
  with step have "st' = st" and "geometry f = None"
    by (auto simp: procesar_feature_def Let_def)
  with inv False show ?thesis
    by (simp add: resuelto_def)
next
  case True
  define q where "q = or_empty (build_query db (properties feat))"
  show ?thesis
  proof (cases "cache st q")
    case (Some loc)
    with inv have mem: "q \<in> set (llamadas st)"
      by (auto simp: cache_inv_def)
    with inv Some have loc: "loc = primera_respuesta geocode (llamadas st) q"
      by (auto simp: cache_inv_def)
    from step True Some have "st' = st" and "geometry f = loc"
      and "properties f ''GEOCOD_QUERY'' = Some q"
      by (auto simp: procesar_feature_def Let_def q_def split: option.splits)
    with inv mem loc True show ?thesis
      by (simp add: resuelto_def q_def)
  next
    case None
    with inv have new: "q \<notin> set (llamadas st)"
      by (auto simp: cache_inv_def)
    define loc where "loc = resultado (geocode (llamadas st) q)"
    from step True None have st': "st' = \<lparr> llamadas = llamadas st @ [q], cache = (cache st)(q \<mapsto> loc) \<rparr>"
      and g: "geometry f = loc" and p: "properties f ''GEOCOD_QUERY'' = Some q"
      by (auto simp: procesar_feature_def Let_def q_def loc_def resultado_def
               split: option.splits outcome.splits)
    have "cache_inv geocode st'"
      unfolding cache_inv_def
    proof (intro conjI ballI)
      show "distinct (llamadas st')"
        using inv new by (simp add: st' cache_inv_def)
      show "dom (cache st') = set (llamadas st')"
        using inv by (simp add: st' cache_inv_def)
      fix x assume x: "x \<in> set (llamadas st')"
      show "cache st' x = Some (primera_respuesta geocode (llamadas st') x)"
      proof (cases "x = q")
        case True
        with new show ?thesis
          by (simp add: st' primera_respuesta_new loc_def)
      next
        case False
        with x have "x \<in> set (llamadas st)"
          by (simp add: st')
        with inv False show ?thesis
          by (simp add: st' cache_inv_def primera_respuesta_append)
      qed
    qed
    moreover have "resuelto db geocode (llamadas st') feat f"
      using True g p new by (simp add: resuelto_def q_def [symmetric] st' primera_respuesta_new loc_def)
    ultimately show ?thesis
      by (simp add: st')
  qed
qed

lemma main_loop_run:
  assumes "cache_inv geocode st" and "main_loop db geocode st feats = (st', fs)"
  shows "cache_inv geocode st' \<and> (\<exists>extra. llamadas st' = llamadas st @ extra) \<and>
         list_all2 (resuelto db geocode (llamadas st')) feats fs"
  using assms
proof (induction feats arbitrary: st st' fs)
  case Nil
  then show ?case by simp
next
  case (Cons feat feats)
  obtain st1 f1 where s1: "procesar_feature db geocode st feat = (st1, f1)"
    by (cases "procesar_feature db geocode st feat")
  obtain st2 fs2 where s2: "main_loop db geocode st1 feats = (st2, fs2)"
    by (cases "main_loop db geocode st1 feats")
  from Cons.prems(2) s1 s2 have e: "st' = st2" "fs = f1 # fs2"
    by simp_all
  from procesar_feature_step [OF Cons.prems(1) s1] obtain m1 where
    i1: "cache_inv geocode st1" and l1: "llamadas st1 = llamadas st @ m1"
    and r1: "resuelto db geocode (llamadas st1) feat f1"
    by blast
  from Cons.IH [OF i1 s2] obtain m2 where
    i2: "cache_inv geocode st2" and l2: "llamadas st2 = llamadas st1 @ m2"
    and r2: "list_all2 (resuelto db geocode (llamadas st2)) feats fs2"
    by blast
  from r1 have "resuelto db geocode (llamadas st2) feat f1"
    unfolding l2 by (rule resuelto_append)
  with i2 l1 l2 r2 e show ?case
    by simp
qed

lemma distinct_count_le_1: "distinct xs \<Longrightarrow> count_list xs q \<le> 1"
  by (induction xs) auto

text \<open>
  C1 (as amended): in the first variant, over a whole run, the geocoder is called at most
  once for any query string, and every record that has a query, the first with that query
  and every later one, is written with the answer to that one call: a later record
  resolves from the cache.
\<close>

theorem cache_lookup_at_most_once:
  "count_list (llamadas (fst (main_v1 db geocode features))) q \<le> 1 \<and>
   list_all2 (resuelto db geocode (llamadas (fst (main_v1 db geocode features))))
     features (snd (main_v1 db geocode features))"
proof -
  obtain st' fs where run: "main_v1 db geocode features = (st', fs)"
    by (cases "main_v1 db geocode features")
  have "cache_inv geocode \<lparr> llamadas = [], cache = Map.empty \<rparr>"
    by (simp add: cache_inv_def)
  from main_loop_run [OF this run [unfolded main_v1_def]]
  have "cache_inv geocode st'" and "list_all2 (resuelto db geocode (llamadas st')) features fs"
    by simp_all
  then have "distinct (llamadas st')"
    and r: "list_all2 (resuelto db geocode (llamadas st')) features fs"
    by (simp_all add: cache_inv_def)
  then have "count_list (llamadas st') q \<le> 1"
    by (intro distinct_count_le_1)
  with r run show ?thesis by simp
qed


lemma build_query_solo_corto:
  "build_query db [''DOMICILIO_CORTO'' \<mapsto> lit ''a''] = Some (lit ''a'' @ estado_pais)"
  by (simp add: build_query_def or_empty_def extraer_cp_y_mpio_def extraer_localidad_def
        truthy_def lit_def)

text \<open>
  Two records with the same query and a geocoder that finds the place only when it is
  asked for the first time: one call is made, and both records get its answer.
\<close>

theorem cache_lookup_at_most_once_witness:
  "count_list
     (llamadas (fst (main_v1 latin1 (\<lambda>log q. if log = [] then Located (7::nat) else NoMatch)
        [\<lparr>geometry = None, properties = [''DOMICILIO_CORTO'' \<mapsto> lit ''a'']\<rparr>,
         \<lparr>geometry = None, properties = [''DOMICILIO_CORTO'' \<mapsto> lit ''a'']\<rparr>])))
     (lit ''a'' @ estado_pais) \<le> 1 \<and>
   list_all2
     (resuelto latin1 (\<lambda>log q. if log = [] then Located (7::nat) else NoMatch)
        (llamadas (fst (main_v1 latin1 (\<lambda>log q. if log = [] then Located (7::nat) else NoMatch)
          [\<lparr>geometry = None, properties = [''DOMICILIO_CORTO'' \<mapsto> lit ''a'']\<rparr>,
           \<lparr>geometry = None, properties = [''DOMICILIO_CORTO'' \<mapsto> lit ''a'']\<rparr>]))))
     [\<lparr>geometry = None, properties = [''DOMICILIO_CORTO'' \<mapsto> lit ''a'']\<rparr>,
      \<lparr>geometry = None, properties = [''DOMICILIO_CORTO'' \<mapsto> lit ''a'']\<rparr>]
     (snd (main_v1 latin1 (\<lambda>log q. if log = [] then Located (7::nat) else NoMatch)
        [\<lparr>geometry = None, properties = [''DOMICILIO_CORTO'' \<mapsto> lit ''a'']\<rparr>,
         \<lparr>geometry = None, properties = [''DOMICILIO_CORTO'' \<mapsto> lit ''a'']\<rparr>])) \<and>
   llamadas (fst (main_v1 latin1 (\<lambda>log q. if log = [] then Located (7::nat) else NoMatch)
        [\<lparr>geometry = None, properties = [''DOMICILIO_CORTO'' \<mapsto> lit ''a'']\<rparr>,
         \<lparr>geometry = None, properties = [''DOMICILIO_CORTO'' \<mapsto> lit ''a'']\<rparr>])) =
     [lit ''a'' @ estado_pais] \<and>
   map geometry (snd (main_v1 latin1 (\<lambda>log q. if log = [] then Located (7::nat) else NoMatch)
        [\<lparr>geometry = None, properties = [''DOMICILIO_CORTO'' \<mapsto> lit ''a'']\<rparr>,
         \<lparr>geometry = None, properties = [''DOMICILIO_CORTO'' \<mapsto> lit ''a'']\<rparr>])) =
     [Some 7, Some 7]"
proof -
  let ?g = "\<lambda>(log :: ustr list) (q :: ustr). if log = [] then Located (7::nat) else NoMatch"
  let ?fs = "[\<lparr>geometry = None, properties = [''DOMICILIO_CORTO'' \<mapsto> lit ''a'']\<rparr>,
              \<lparr>geometry = None, properties = [''DOMICILIO_CORTO'' \<mapsto> lit ''a'']\<rparr>]"
  have ne: "lit ''a'' \<noteq> []"
    by (simp add: lit_def)
  have run: "llamadas (fst (main_v1 latin1 ?g ?fs)) = [lit ''a'' @ estado_pais] \<and>
             map geometry (snd (main_v1 latin1 ?g ?fs)) = [Some 7, Some 7]"
    by (simp add: main_v1_def procesar_feature_def build_query_solo_corto truthy_def
          or_empty_def ne Let_def)
  from cache_lookup_at_most_once [of latin1 ?g ?fs "lit ''a'' @ estado_pais"] run
  show ?thesis by (intro conjI) simp_all
qed


section \<open>Status and geometry\<close>

lemma procesar_feature_status: "status_ok (snd (procesar_feature db geocode st feat))"
proof (cases "truthy (build_query db (properties feat))")
  case False
  then show ?thesis by (simp add: procesar_feature_def Let_def status_ok_def lit_def)
next
  case True
  then show ?thesis
    by (auto simp: procesar_feature_def Let_def status_ok_def lit_def
             split: option.splits outcome.splits)
qed

lemma main_loop_status:
  "f \<in> set (snd (main_loop db geocode st feats)) \<Longrightarrow> status_ok f"
proof (induction feats arbitrary: st)
  case Nil
  then show ?case by simp
next
  case (Cons feat feats)
  obtain st1 f1 where s1: "procesar_feature db geocode st feat = (st1, f1)"
    by (cases "procesar_feature db geocode st feat")
  obtain st2 fs where s2: "main_loop db geocode st1 feats = (st2, fs)"
    by (cases "main_loop db geocode st1 feats")
  from Cons.prems s1 s2 have "f = f1 \<or> f \<in> set fs" by simp
  then show ?case
  proof
    assume "f = f1"
    with procesar_feature_status [of db geocode st feat] s1 show ?thesis by simp
  next
    assume "f \<in> set fs"
    with s2 have "f \<in> set (snd (main_loop db geocode st1 feats))" by simp
    then show ?thesis by (rule Cons.IH)
  qed
qed

lemma probar_queries_status:
  "probar_queries geocode log gq qs = (log', geom, st, gq') \<Longrightarrow>
     (st = lit ''OK'' \<or> st = lit ''SIN_MATCH'') \<and> (geom \<noteq> None \<longleftrightarrow> st = lit ''OK'')"
proof (induction qs arbitrary: log gq)
  case Nil
  then show ?case by (auto simp: lit_def)
next
  case (Cons q qs)
  show ?case
  proof (cases "q = []")
    case True
    with Cons show ?thesis by simp
  next
    case False
    with Cons show ?thesis
      by (cases "geocode log q") (auto simp: lit_def)
  qed
qed

lemma procesar_fila_status: "status_ok (snd (procesar_fila db mapa geocode log r))"
proof -
  let ?qs = "armar_queries_geocod db
      (construir_domicilio_corto db (limpiar_frases_basura db (strip (or_empty (DOMICILIO r))))
         (Some (strip (or_empty (LOCALIDAD r)))))
      (Some (strip (or_empty (LOCALIDAD r))))
      (Some (case mapa (strip (or_empty (SECCION r))) of Some m \<Rightarrow> m | None \<Rightarrow> []))"
  obtain log' geom st gq where p: "probar_queries geocode log [] ?qs = (log', geom, st, gq)"
    by (cases "probar_queries geocode log [] ?qs") auto
  from probar_queries_status [OF p] p show ?thesis
    by (auto simp: procesar_fila_def Let_def status_ok_def)
qed

lemma main_v2_status:
  "f \<in> set (snd (main_v2 db mapa geocode log rows)) \<Longrightarrow> status_ok f"
proof (induction rows arbitrary: log)
  case Nil
  then show ?case by simp
next
  case (Cons r rows)
  obtain log1 f1 where s1: "procesar_fila db mapa geocode log r = (log1, f1)"
    by (cases "procesar_fila db mapa geocode log r")
  obtain log2 fs where s2: "main_v2 db mapa geocode log1 rows = (log2, fs)"
    by (cases "main_v2 db mapa geocode log1 rows")
  from Cons.prems s1 s2 have "f = f1 \<or> f \<in> set fs" by simp
  then show ?case
  proof
    assume "f = f1"
    with procesar_fila_status [of db mapa geocode log r] s1 show ?thesis by simp
  next
    assume "f \<in> set fs"
    with s2 have "f \<in> set (snd (main_v2 db mapa geocode log1 rows))" by simp
    then show ?thesis by (rule Cons.IH)
  qed
qed

text \<open>
  C2: every feature written by either variant carries one status among OK, SIN\_MATCH and
  SIN\_DIRECCION, and its geometry is a Point exactly when the status is OK.
\<close>

theorem status_completeness:
  assumes "f \<in> set (snd (main_v1 db geocode features)) \<or>
           f \<in> set (snd (main_v2 db mapa_muni geocode2 log rows))"
  shows "\<exists>s. properties f ''GEOCOD_STATUS'' = Some s \<and>
          (s = lit ''OK'' \<or> s = lit ''SIN_MATCH'' \<or> s = lit ''SIN_DIRECCION'') \<and>
          (geometry f \<noteq> None \<longleftrightarrow> s = lit ''OK'')"
proof -
  from assms have "status_ok f"
    unfolding main_v1_def by (auto dest: main_loop_status main_v2_status)
  then show ?thesis by (simp add: status_ok_def)
qed


lemma strip_accents_fallback_latin1: "strip_accents_keep_enie latin1 fallback = fallback"
  by (simp add: strip_accents_keep_enie_def lit_def collapse_ws_def split_ws_def isspace_def
        enie_min_def enie_may_def tok_min_def tok_may_def latin1_def decomp_latin1_def
        fallback_def)

lemma armar_queries_empty_latin1:
  "armar_queries_geocod latin1 [] (Some []) (Some []) = [fallback]"
  by (simp add: armar_queries_geocod_def tier1_def tier2_def tier3_def strip_def strip_with_def
        or_empty_def strip_accents_fallback_latin1)

lemma procesar_fila_empty_latin1:
  "procesar_fila latin1 Map.empty geocode log
     \<lparr>SECCION = None, CASILLA = None, LOCALIDAD = None, DOMICILIO = None\<rparr> =
   (case probar_queries geocode log [] [fallback] of
      (log', geom, geocod_status, geocod_query) \<Rightarrow>
        (log', \<lparr> geometry = geom,
                 properties = [''SECCION'' \<mapsto> [], ''CASILLA_ID'' \<mapsto> [],
                   ''LOCALIDAD'' \<mapsto> [], ''DOMICILIO'' \<mapsto> [],
                   ''DOMICILIO_LIMPIO'' \<mapsto> [], ''DOMICILIO_CORTO'' \<mapsto> [],
                   ''GEOCOD_STATUS'' \<mapsto> geocod_status,
                   ''GEOCOD_QUERY'' \<mapsto> geocod_query] \<rparr>))"
  by (simp add: procesar_fila_def strip_def strip_with_def or_empty_def
        limpiar_frases_basura_def construir_domicilio_corto_def armar_queries_empty_latin1)

text \<open>
  C1 as stated fails for the second variant, which keeps no cache: two rows without
  address and locality both ask for the fallback query.
\<close>

theorem cache_v2_counterexample:
  "count_list
     (fst (main_v2 latin1 Map.empty (\<lambda>log q. NoMatch :: nat outcome) []
        [\<lparr>SECCION = None, CASILLA = None, LOCALIDAD = None, DOMICILIO = None\<rparr>,
         \<lparr>SECCION = None, CASILLA = None, LOCALIDAD = None, DOMICILIO = None\<rparr>]))
     fallback = 2"
  by (simp add: procesar_fila_empty_latin1 fallback_def lit_def)


theorem status_completeness_witness:
  "(\<exists>s. properties (hd (snd (main_v1 latin1 (\<lambda>log q. Located (7::nat))
            [\<lparr>geometry = None, properties = [''DOMICILIO'' \<mapsto> lit ''a'']\<rparr>])))
          ''GEOCOD_STATUS'' = Some s \<and>
        (s = lit ''OK'' \<or> s = lit ''SIN_MATCH'' \<or> s = lit ''SIN_DIRECCION'') \<and>
        (geometry (hd (snd (main_v1 latin1 (\<lambda>log q. Located (7::nat))
            [\<lparr>geometry = None, properties = [''DOMICILIO'' \<mapsto> lit ''a'']\<rparr>]))) \<noteq> None
         \<longleftrightarrow> s = lit ''OK''))"
proof -
  let ?fs = "snd (main_v1 latin1 (\<lambda>log q. Located (7::nat))
            [\<lparr>geometry = None, properties = [''DOMICILIO'' \<mapsto> lit ''a'']\<rparr>])"
  have "hd ?fs \<in> set ?fs"
    by (simp add: main_v1_def split: prod.splits)
  then have "hd ?fs \<in> set ?fs \<or>
      hd ?fs \<in> set (snd (main_v2 latin1 Map.empty (\<lambda>log q. NoMatch) [] []))"
    by (rule disjI1)
  then show ?thesis by (rule status_completeness)
qed


section \<open>The second variant on rows that find nothing\<close>

lemma probar_queries_all_raise:
  "probar_queries (\<lambda>log q. Raised) log gq qs =
     (log @ filter (\<lambda>q. q \<noteq> []) qs, None, lit ''SIN_MATCH'', gq)"
  by (induction qs arbitrary: log) auto

lemma procesar_fila_all_raise:
  "properties (snd (procesar_fila db mapa (\<lambda>log q. Raised) log r)) ''GEOCOD_QUERY'' = Some []"
  by (simp add: procesar_fila_def Let_def probar_queries_all_raise)

lemma limpiar_calle_5: "limpiar_frases_basura latin1 (lit ''Calle 5'') = lit ''CALLE 5''"
  by (simp add: limpiar_frases_basura_def lit_def collapse_ws_def split_ws_def isspace_def
        latin1_def upper_def upper_latin1_def cortes_def strip_chars_def strip_with_def)

lemma domicilio_corto_calle_5:
  "construir_domicilio_corto latin1 (lit ''CALLE 5'') (Some (lit ''Centro'')) =
     lit ''CALLE 5, Centro''"
  by (simp add: construir_domicilio_corto_def lit_def strip_def strip_with_def isspace_def
        or_empty_def contains_def latin1_def upper_def upper_latin1_def)

lemma strip_accents_ascii_1:
  "strip_accents_keep_enie latin1 (lit ''CALLE 5, Centro, Guanajuato, Mexico'') =
     lit ''CALLE 5, Centro, Guanajuato, Mexico''"
  by (simp add: strip_accents_keep_enie_def lit_def collapse_ws_def split_ws_def isspace_def
        enie_min_def enie_may_def tok_min_def tok_may_def latin1_def decomp_latin1_def)

lemma strip_accents_ascii_2:
  "strip_accents_keep_enie latin1 (lit ''Centro, Guanajuato, Mexico'') =
     lit ''Centro, Guanajuato, Mexico''"
  by (simp add: strip_accents_keep_enie_def lit_def collapse_ws_def split_ws_def isspace_def
        enie_min_def enie_may_def tok_min_def tok_may_def latin1_def decomp_latin1_def)

lemma armar_queries_calle_5:
  "armar_queries_geocod latin1 (lit ''CALLE 5, Centro'') (Some (lit ''Centro'')) (Some []) =
     [lit ''CALLE 5, Centro, Guanajuato, Mexico'', lit ''Centro, Guanajuato, Mexico'',
      fallback]"
proof -
  have s: "strip (lit ''Centro'') = lit ''Centro''" "strip [] = []"
    by (simp_all add: strip_def strip_with_def lit_def isspace_def)
  have q: "lit ''CALLE 5, Centro'' @ lit '', Guanajuato, Mexico'' =
             lit ''CALLE 5, Centro, Guanajuato, Mexico''"
     "lit ''Centro'' @ lit '', Guanajuato, Mexico'' = lit ''Centro, Guanajuato, Mexico''"
    by (simp_all add: lit_def)
  have ne: "lit ''CALLE 5, Centro'' \<noteq> []" "lit ''Centro'' \<noteq> []"
    by (simp_all add: lit_def)
  have d: "lit ''Centro, Guanajuato, Mexico'' \<noteq> lit ''CALLE 5, Centro, Guanajuato, Mexico''"
     "fallback \<noteq> lit ''CALLE 5, Centro, Guanajuato, Mexico''"
     "fallback \<noteq> lit ''Centro, Guanajuato, Mexico''"
    by (simp_all add: lit_def fallback_def)
  show ?thesis
    by (simp add: armar_queries_geocod_def or_empty_def s tier1_def tier2_def tier3_def ne q
          strip_accents_ascii_1 strip_accents_ascii_2 strip_accents_fallback_latin1 d)
qed

text \<open>
  C5: with a geocoder that raises on every query, the second variant tries the three
  candidates of this row and writes the status SIN\_MATCH and no geometry, but the
  recorded query stays empty: the \<open>except\<close> branch continues before \<open>geocod_query\<close> is
  set, so the last attempted candidate is not kept.
\<close>

theorem last_attempted_query_lost:
  "procesar_fila latin1 Map.empty (\<lambda>log q. Raised :: nat outcome) []
       \<lparr>SECCION = None, CASILLA = None, LOCALIDAD = Some (lit ''Centro''),
        DOMICILIO = Some (lit ''Calle 5'')\<rparr> =
     ([lit ''CALLE 5, Centro, Guanajuato, Mexico'', lit ''Centro, Guanajuato, Mexico'',
       lit ''Guanajuato, Mexico''],
      \<lparr>geometry = None,
       properties =
         [''SECCION'' \<mapsto> [], ''CASILLA_ID'' \<mapsto> [], ''LOCALIDAD'' \<mapsto> lit ''Centro'',
          ''DOMICILIO'' \<mapsto> lit ''Calle 5'', ''DOMICILIO_LIMPIO'' \<mapsto> lit ''CALLE 5'',
          ''DOMICILIO_CORTO'' \<mapsto> lit ''CALLE 5, Centro'',
          ''GEOCOD_STATUS'' \<mapsto> lit ''SIN_MATCH'', ''GEOCOD_QUERY'' \<mapsto> []]\<rparr>)"
proof -
  have s: "strip (lit ''Centro'') = lit ''Centro''" "strip (lit ''Calle 5'') = lit ''Calle 5''"
      "strip [] = []"
    by (simp_all add: strip_def strip_with_def lit_def isspace_def)
  have ne: "lit ''CALLE 5, Centro, Guanajuato, Mexico'' \<noteq> []"
     "lit ''Centro, Guanajuato, Mexico'' \<noteq> []" "fallback \<noteq> []"
    by (simp_all add: lit_def fallback_def)
  have f: "fallback = lit ''Guanajuato, Mexico''"
    by (simp add: fallback_def)
  show ?thesis
    unfolding procesar_fila_def
    by (simp add: or_empty_def s limpiar_calle_5 domicilio_corto_calle_5 armar_queries_calle_5
          probar_queries_all_raise ne) (simp add: f)
qed

text \<open>
  The first variant does what C4 says: a record without any address text gets the status
  SIN\_DIRECCION and no geometry, and the state (call log and cache) is unchanged.
\<close>

lemma procesar_feature_sin_direccion:
  assumes "or_empty (properties feat ''DOMICILIO_CORTO'') = []"
    and "or_empty (properties feat ''DOMICILIO_LIMPIO'') = []"
    and "or_empty (properties feat ''DOMICILIO'') = []"
  shows "procesar_feature db geocode st feat =
     (st, feat\<lparr> properties := (properties feat)(''GEOCOD_STATUS'' \<mapsto> lit ''SIN_DIRECCION''),
                geometry := None \<rparr>)"
  using assms by (simp add: procesar_feature_def build_query_def truthy_def)

text \<open>
  C4: the second variant has no such branch. For a row without address and locality it
  still calls the geocoder, with the state-and-country fallback, and the status it writes
  is never SIN\_DIRECCION.
\<close>

theorem sin_direccion_missing_in_v2:
  "fst (procesar_fila latin1 Map.empty geocode []
          \<lparr>SECCION = None, CASILLA = None, LOCALIDAD = None, DOMICILIO = None\<rparr>) =
     [lit ''Guanajuato, Mexico''] \<and>
   properties (snd (procesar_fila latin1 Map.empty geocode []
          \<lparr>SECCION = None, CASILLA = None, LOCALIDAD = None, DOMICILIO = None\<rparr>))
     ''GEOCOD_STATUS'' \<noteq> Some (lit ''SIN_DIRECCION'')"
  by (cases "geocode [] fallback")
     (simp_all add: procesar_fila_empty_latin1 fallback_def lit_def)


section \<open>Noise phrases\<close>

text \<open>
  C6: \<open>limpiar_frases_basura\<close> cuts at the first phrase of the list \<open>cortes\<close> that occurs
  anywhere, not at the earliest position: here FRENTE AL comes before ESQUINA in the list,
  so the text is cut at FRENTE AL and the phrase ESQUINA stays in the result.
\<close>

theorem noise_phrase_survives:
  "limpiar_frases_basura latin1 (lit ''Hidalgo 12 esquina Juarez frente al jardin'') =
     lit ''HIDALGO 12 ESQUINA JUAREZ'' \<and>
   contains (lit ''HIDALGO 12 ESQUINA JUAREZ'') (lit '' ESQUINA '') \<and>
   lit '' ESQUINA '' \<in> set cortes"
  by (simp add: limpiar_frases_basura_def lit_def collapse_ws_def split_ws_def isspace_def
        latin1_def upper_def upper_latin1_def cortes_def strip_chars_def strip_with_def
        contains_def)


lemma find_sub_None_iff: "find_sub s sub = None \<longleftrightarrow> \<not> sublist sub s"
  by (induction s) (auto simp: sublist_Cons_right)

lemma contains_sublist: "contains s sub \<longleftrightarrow> sublist sub s"
  by (simp add: contains_def find_sub_None_iff)

lemma find_sub_before:
  assumes "sublist mk (take n s)" and "mk \<noteq> []"
  shows "\<exists>j. find_sub s mk = Some j \<and> j < n"
  using assms
proof (induction s arbitrary: n)
  case Nil
  then show ?case by simp
next
  case (Cons c cs)
  show ?case
  proof (cases n)
    case 0
    with Cons.prems show ?thesis by simp
  next
    case (Suc m)
    with Cons.prems have "prefix mk (c # take m cs) \<or> sublist mk (take m cs)"
      by (simp add: sublist_Cons_right)
    then show ?thesis
    proof
      assume "prefix mk (c # take m cs)"
      moreover have "prefix (c # take m cs) (c # cs)"
        by (simp add: take_is_prefix)
      ultimately have "prefix mk (c # cs)"
        by (rule prefix_order.trans)
      with Suc show ?thesis by simp
    next
      assume "sublist mk (take m cs)"
      from Cons.IH [OF this Cons.prems(2)] obtain j where "find_sub cs mk = Some j" "j < m"
        by blast
      with Suc show ?thesis by auto
    qed
  qed
qed

lemma primer_corte_le: "primer_corte base mks n \<le> n"
proof (induction mks arbitrary: n)
  case Nil
  then show ?case by simp
next
  case (Cons m mks)
  show ?case
  proof (cases "find_sub base m")
    case None
    with Cons show ?thesis by simp
  next
    case (Some i)
    have "primer_corte base mks (if i < n then i else n) \<le> (if i < n then i else n)"
      by (rule Cons.IH)
    also have "\<dots> \<le> n" by simp
    finally show ?thesis using Some by simp
  qed
qed

lemma primer_corte_min:
  assumes "mk \<in> set mks" and "find_sub base mk = Some i"
  shows "primer_corte base mks n \<le> i"
  using assms
proof (induction mks arbitrary: n)
  case Nil
  then show ?case by simp
next
  case (Cons m mks)
  show ?case
  proof (cases "mk = m")
    case True
    have "primer_corte base mks (if i < n then i else n) \<le> (if i < n then i else n)"
      by (rule primer_corte_le)
    with True Cons.prems(2) show ?thesis by (auto split: if_splits)
  next
    case False
    with Cons.prems have "mk \<in> set mks" by simp
    from Cons.IH [OF this Cons.prems(2)] show ?thesis
      by (simp split: option.splits)
  qed
qed

lemma sublist_strip_with: "sublist (strip_with p s) s"
proof -
  define u where "u = dropWhile p s"
  have "u = rev (rev u)" by simp
  also have "\<dots> = rev (takeWhile p (rev u) @ dropWhile p (rev u))"
    by (simp only: takeWhile_dropWhile_id)
  also have "\<dots> = strip_with p s @ rev (takeWhile p (rev u))"
    by (simp only: rev_append strip_with_def u_def)
  finally have "u = strip_with p s @ rev (takeWhile p (rev u))" .
  then have "prefix (strip_with p s) u"
    by (metis prefixI)
  moreover have "suffix u s"
    unfolding u_def by (rule suffix_dropWhile)
  ultimately show ?thesis
    by (meson prefix_imp_sublist suffix_imp_sublist sublist_order.order_trans)
qed

text \<open>
  The function \<open>domicilio_corto\<close> of the preparation script does what C6 describes, for
  its own list of markers: it keeps the lowest index over all markers, so its result
  contains none of them.
\<close>

lemma domicilio_corto_no_marker:
  assumes "mk \<in> set marcadores"
  shows "\<not> contains (domicilio_corto txt) mk"
proof (cases "txt = []")
  case True
  from assms have "mk \<noteq> []" by (auto simp: marcadores_def lit_def)
  with True show ?thesis
    by (simp add: domicilio_corto_def contains_def)
next
  case False
  define base where "base = lit '' '' @ txt @ lit '' ''"
  define n where "n = primer_corte base marcadores (length base)"
  from assms have ne: "mk \<noteq> []" by (auto simp: marcadores_def lit_def)
  have d: "domicilio_corto txt = strip_chars (lit '',.;- '') (strip (take n base))"
    using False unfolding domicilio_corto_def base_def n_def Let_def by (simp only: if_False)
  show ?thesis
  proof
    assume "contains (domicilio_corto txt) mk"
    then have "sublist mk (strip_chars (lit '',.;- '') (strip (take n base)))"
      by (simp add: d contains_sublist)
    moreover have "sublist (strip_chars (lit '',.;- '') (strip (take n base)))
        (strip (take n base))"
      unfolding strip_chars_def by (rule sublist_strip_with)
    moreover have "sublist (strip (take n base)) (take n base)"
      unfolding strip_def by (rule sublist_strip_with)
    ultimately have "sublist mk (take n base)"
      by (meson sublist_order.order_trans)
    from find_sub_before [OF this ne] obtain j where j: "find_sub base mk = Some j" "j < n"
      by blast
    from primer_corte_min [OF assms j(1)] have "n \<le> j"
      by (simp add: n_def)
    with j(2) show False by simp
  qed
qed


section \<open>The candidate list of the second variant\<close>

lemma remdups_snoc: "remdups (ys @ [x]) = remdups (filter (\<lambda>y. y \<noteq> x) ys) @ [x]"
  by (induction ys) auto

lemma unique_from_remdups:
  "unique_from seen xs = rev (remdups (rev (filter (\<lambda>x. x \<notin> seen) xs)))"
proof (induction xs arbitrary: seen)
  case Nil
  then show ?case by simp
next
  case (Cons x xs)
  show ?case
  proof (cases "x \<in> seen")
    case True
    with Cons show ?thesis by simp
  next
    case False
    have "filter (\<lambda>y. y \<noteq> x) (rev (filter (\<lambda>y. y \<notin> seen) xs)) =
          rev (filter (\<lambda>y. y \<notin> insert x seen) xs)"
      by (simp add: rev_filter [symmetric] conj_commute)
    with False Cons show ?thesis
      by (simp add: remdups_snoc)
  qed
qed

lemma set_unique_from: "set (unique_from seen xs) = set xs - seen"
  by (induction xs arbitrary: seen) auto

lemma distinct_unique_from: "distinct (unique_from seen xs)"
  by (induction xs arbitrary: seen) (auto simp: set_unique_from)

lemma unique_from_append:
  "unique_from seen (xs @ ys) = unique_from seen xs @ unique_from (seen \<union> set xs) ys"
  by (induction xs arbitrary: seen) (auto simp: insert_absorb)

lemma strip_accents_fallback:
  assumes "nfd_of db fallback = fallback" and "\<forall>c \<in> set fallback. \<not> is_Mn db c"
  shows "strip_accents_keep_enie db fallback = fallback"
proof -
  have ne: "fallback \<noteq> []"
    by (simp add: fallback_def lit_def)
  have c: "collapse_ws fallback = fallback"
    by (simp add: fallback_def lit_def collapse_ws_def split_ws_def isspace_def)
  have m: "replace fallback enie_min tok_min = fallback"
     "replace fallback enie_may tok_may = fallback"
    by (simp_all add: fallback_def lit_def enie_min_def enie_may_def)
  have f: "filter (\<lambda>ch. \<not> is_Mn db ch) fallback = fallback"
    using assms(2) by (simp add: filter_id_conv)
  have r: "replace fallback tok_min enie_min = fallback"
     "replace fallback tok_may enie_may = fallback"
    by (simp_all add: fallback_def lit_def tok_min_def tok_may_def)
  show ?thesis
    by (simp add: strip_accents_keep_enie_def ne c m assms(1) f r)
qed

text \<open>
  C3: for a character database whose NFD leaves the text \<open>Guanajuato, Mexico\<close> alone
  and that has no mark among its characters, \<open>armar_queries_geocod\<close> returns a list that
  is not empty, has no duplicates, contains the state-and-country fallback, is the
  normalised candidate list with every repetition after the first removed, and consists
  of four consecutive blocks that come from tier 1, tier 2, tier 3 and the fallback, in
  this order.
\<close>

theorem armar_queries_order:
  assumes "nfd_of db fallback = fallback" and "\<forall>c \<in> set fallback. \<not> is_Mn db c"
  shows
    "let n = strip_accents_keep_enie db;
         loc = strip (or_empty localidad);
         muni = strip (or_empty municipio);
         r = armar_queries_geocod db dom_corto localidad municipio
     in r \<noteq> [] \<and> distinct r \<and> fallback \<in> set r \<and>
        r = rev (remdups (rev (map n
              (tier1 dom_corto muni @ tier2 loc muni @ tier3 muni @ [fallback])))) \<and>
        (\<exists>r1 r2 r3 r4. r = r1 @ r2 @ r3 @ r4 \<and>
           set r1 \<subseteq> n ` set (tier1 dom_corto muni) \<and>
           set r2 \<subseteq> n ` set (tier2 loc muni) \<and>
           set r3 \<subseteq> n ` set (tier3 muni) \<and>
           set r4 \<subseteq> {fallback})"
proof -
  define n where "n = strip_accents_keep_enie db"
  define loc where "loc = strip (or_empty localidad)"
  define muni where "muni = strip (or_empty municipio)"
  define q1 where "q1 = map n (tier1 dom_corto muni)"
  define q2 where "q2 = map n (tier2 loc muni)"
  define q3 where "q3 = map n (tier3 muni)"
  define r where "r = armar_queries_geocod db dom_corto localidad municipio"
  have nf: "n fallback = fallback"
    unfolding n_def using assms by (rule strip_accents_fallback)
  have r_eq: "r = unique_from {} (q1 @ q2 @ q3 @ [fallback])"
    by (simp add: r_def armar_queries_geocod_def Let_def q1_def q2_def q3_def n_def loc_def
          muni_def nf [unfolded n_def])
  have mem: "fallback \<in> set r"
    by (simp add: r_eq set_unique_from)
  then have ne: "r \<noteq> []" by auto
  have d: "distinct r"
    by (simp add: r_eq distinct_unique_from)
  have rd: "r = rev (remdups (rev (map n
              (tier1 dom_corto muni @ tier2 loc muni @ tier3 muni @ [fallback]))))"
    by (simp add: r_eq unique_from_remdups q1_def q2_def q3_def nf)
  have blocks: "r = unique_from {} q1 @ unique_from (set q1) q2 @
                   unique_from (set q1 \<union> set q2) q3 @
                   unique_from (set q1 \<union> set q2 \<union> set q3) [fallback]"
    by (simp add: r_eq unique_from_append)
  have "set (unique_from {} q1) \<subseteq> n ` set (tier1 dom_corto muni)"
       "set (unique_from (set q1) q2) \<subseteq> n ` set (tier2 loc muni)"
       "set (unique_from (set q1 \<union> set q2) q3) \<subseteq> n ` set (tier3 muni)"
       "set (unique_from (set q1 \<union> set q2 \<union> set q3) [fallback]) \<subseteq> {fallback}"
    by (auto simp: set_unique_from q1_def q2_def q3_def)
  with blocks have ex: "\<exists>r1 r2 r3 r4. r = r1 @ r2 @ r3 @ r4 \<and>
           set r1 \<subseteq> n ` set (tier1 dom_corto muni) \<and>
           set r2 \<subseteq> n ` set (tier2 loc muni) \<and>
           set r3 \<subseteq> n ` set (tier3 muni) \<and>
           set r4 \<subseteq> {fallback}"
    by blast
  from ne d mem rd ex show ?thesis
    unfolding Let_def n_def loc_def muni_def r_def by blast
qed


theorem armar_queries_order_witness:
  "let n = strip_accents_keep_enie latin1;
       loc = strip (or_empty (Some (lit ''Centro'')));
       muni = strip (or_empty (Some []));
       r = armar_queries_geocod latin1 (lit ''CALLE 5, Centro'') (Some (lit ''Centro'')) (Some [])
   in r \<noteq> [] \<and> distinct r \<and> fallback \<in> set r \<and>
      r = rev (remdups (rev (map n
            (tier1 (lit ''CALLE 5, Centro'') muni @ tier2 loc muni @ tier3 muni @ [fallback])))) \<and>
      (\<exists>r1 r2 r3 r4. r = r1 @ r2 @ r3 @ r4 \<and>
         set r1 \<subseteq> n ` set (tier1 (lit ''CALLE 5, Centro'') muni) \<and>
         set r2 \<subseteq> n ` set (tier2 loc muni) \<and>
         set r3 \<subseteq> n ` set (tier3 muni) \<and>
         set r4 \<subseteq> {fallback})"
proof -
  have h1: "nfd_of latin1 fallback = fallback"
    by (simp add: latin1_def fallback_def lit_def decomp_latin1_def)
  have h2: "\<forall>c \<in> set fallback. \<not> is_Mn latin1 c"
    by (simp add: latin1_def fallback_def lit_def)
  show ?thesis by (rule armar_queries_order [OF h1 h2])
qed


section \<open>Accents and the protected letter\<close>

lemma replace_single:
  "replace s [c] new = concat (map (\<lambda>x. if x = c then new else [x]) s)"
  by (induction s) auto

lemma marcar_text:
  "replace (replace t enie_min tok_min) enie_may tok_may = concat (map marca t)"
proof -
  have "concat (map (\<lambda>x. if x = 209 then tok_may else [x])
           (concat (map (\<lambda>x. if x = 241 then tok_min else [x]) t))) = concat (map marca t)"
    by (induction t) (auto simp: marca_def tok_min_def lit_def)
  then show ?thesis
    by (simp add: replace_single enie_min_def enie_may_def)
qed

lemma replace_skip:
  assumes "95 \<notin> set a"
  shows "replace (a @ s) (95 # t) new = a @ replace s (95 # t) new"
  using assms by (induction a) auto

lemma replace_hit:
  assumes "tok \<noteq> []"
  shows "replace (tok @ s) tok new = new @ replace s tok new"
  using assms by (cases tok) auto

lemma tokenized_ConsD:
  assumes "tokenized (c # s)"
  shows "(c \<noteq> 95 \<and> tokenized s) \<or> (c = 95 \<and> (\<exists>s'. s = tl tok_min @ s' \<and> tokenized s'))
         \<or> (c = 95 \<and> (\<exists>s'. s = tl tok_may @ s' \<and> tokenized s'))"
  using assms
  by (cases rule: tokenized.cases) (auto simp: tok_min_def tok_may_def lit_def)

lemma tokenized_append:
  "95 \<notin> set a \<Longrightarrow> tokenized s \<Longrightarrow> tokenized (a @ s)"
  by (induction a) (auto intro: tokenized.intros)

lemma tokenized_no_enie_m:
  assumes "tokenized (101 # 110 # 105 # 101 # 95 # 109 # r)"
  shows False
proof -
  from assms have "tokenized (110 # 105 # 101 # 95 # 109 # r)"
    by (auto dest: tokenized_ConsD)
  then have "tokenized (105 # 101 # 95 # 109 # r)"
    by (auto dest: tokenized_ConsD)
  then have "tokenized (101 # 95 # 109 # r)"
    by (auto dest: tokenized_ConsD)
  then have "tokenized (95 # 109 # r)"
    by (auto dest: tokenized_ConsD)
  then show False
    by (auto dest!: tokenized_ConsD simp: tok_min_def tok_may_def lit_def)
qed

lemma tokenized_no_us_e:
  assumes "tokenized (95 # 101 # r)"
  shows False
  using assms by (auto dest!: tokenized_ConsD simp: tok_min_def tok_may_def lit_def)

lemma replace_pass_may:
  assumes "tokenized s"
  shows "replace (tok_may @ s) tok_min new = tok_may @ replace s tok_min new"
proof -
  have a: "\<not> prefix [101, 110, 105, 101, 95, 109, 105, 110, 95, 95] s"
    using assms tokenized_no_enie_m by (auto simp: prefix_def)
  have b: "\<not> prefix [95, 101, 110, 105, 101, 95, 109, 105, 110, 95, 95] s"
    using assms tokenized_no_us_e by (auto simp: prefix_def)
  show ?thesis
    using a b by (simp add: tok_may_def tok_min_def lit_def)
qed


lemma nfd_ascii_block:
  assumes "ascii_inert db" and "l \<noteq> []" and "\<forall>c \<in> set l. c < 128"
  shows "nfd_of db (xs @ l @ ys) = nfd_of db xs @ l @ nfd_of db ys"
  using assms(2,3)
proof (induction l arbitrary: xs rule: list_nonempty_induct)
  case (single c)
  with assms(1) show ?case by (simp add: ascii_inert_def)
next
  case (cons c l)
  from cons.prems have "c < 128" and l: "\<forall>c \<in> set l. c < 128" by simp_all
  with assms(1) have "nfd_of db (xs @ c # (l @ ys)) = nfd_of db xs @ c # nfd_of db (l @ ys)"
    by (simp add: ascii_inert_def)
  moreover have "nfd_of db ([] @ l @ ys) = nfd_of db [] @ l @ nfd_of db ys"
    using l by (rule cons.IH)
  ultimately show ?case
    using assms(1) by (simp add: ascii_inert_def)
qed

lemma sin_marcas_block:
  assumes "ascii_inert db" and "l \<noteq> []" and "\<forall>c \<in> set l. c < 128"
  shows "sin_marcas db (xs @ l @ ys) = sin_marcas db xs @ l @ sin_marcas db ys"
proof -
  have "filter (\<lambda>ch. \<not> is_Mn db ch) l = l"
    using assms(1,3) by (simp add: ascii_inert_def filter_id_conv)
  then show ?thesis
    by (simp add: sin_marcas_def nfd_ascii_block [OF assms])
qed

lemma sin_marcas_no_underscore:
  assumes "ascii_inert db" and "95 \<notin> set p"
  shows "95 \<notin> set (sin_marcas db p)"
  using assms by (simp add: sin_marcas_def ascii_inert_def)

lemma sin_marcas_Nil: "ascii_inert db \<Longrightarrow> sin_marcas db [] = []"
  by (simp add: sin_marcas_def ascii_inert_def)

lemma tok_ascii:
  "tok_min \<noteq> []" "\<forall>c \<in> set tok_min. c < 128" "tok_may \<noteq> []" "\<forall>c \<in> set tok_may. c < 128"
  by (simp_all add: tok_min_def tok_may_def lit_def)

lemma tok_heads: "tok_min = 95 # tl tok_min" "tok_may = 95 # tl tok_may"
  by (simp_all add: tok_min_def tok_may_def lit_def)

lemma replace_skip_min:
  "95 \<notin> set a \<Longrightarrow> replace (a @ s) tok_min new = a @ replace s tok_min new"
  using replace_skip [of a s "tl tok_min" new] tok_heads(1) by simp

lemma replace_skip_may:
  "95 \<notin> set a \<Longrightarrow> replace (a @ s) tok_may new = a @ replace s tok_may new"
  using replace_skip [of a s "tl tok_may" new] tok_heads(2) by simp

lemma replace_Nil_tok: "replace [] tok_min new = []" "replace [] tok_may new = []"
  using tok_ascii by simp_all

lemma replace_none_tok:
  assumes "95 \<notin> set a"
  shows "replace a tok_min new = a" "replace a tok_may new = a"
  using replace_skip_min [OF assms, of "[]" new] replace_skip_may [OF assms, of "[]" new]
    tok_ascii(1,3)
  by simp_all

lemma marca_simps:
  "marca 241 = tok_min" "marca 209 = tok_may" "c \<noteq> 241 \<Longrightarrow> c \<noteq> 209 \<Longrightarrow> marca c = [c]"
  by (simp_all add: marca_def)

lemma restore_marked:
  assumes db: "ascii_inert db"
  shows "95 \<notin> set pre \<Longrightarrow> 95 \<notin> set cs \<Longrightarrow>
     tokenized (sin_marcas db (pre @ concat (map marca cs))) \<and>
     replace (replace (sin_marcas db (pre @ concat (map marca cs))) tok_min enie_min)
        tok_may enie_may = keep_enie_acc db pre cs"
proof (induction cs arbitrary: pre)
  case Nil
  from db Nil have u: "95 \<notin> set (sin_marcas db pre)"
    by (simp add: sin_marcas_no_underscore)
  have "tokenized (sin_marcas db pre @ [])"
    using u by (intro tokenized_append tokenized.tok_nil)
  then show ?case
    using u by (simp add: replace_none_tok)
next
  case (Cons c cs)
  from Cons.prems have c95: "c \<noteq> 95" and cs95: "95 \<notin> set cs" by auto
  from db Cons.prems have u: "95 \<notin> set (sin_marcas db pre)"
    by (simp add: sin_marcas_no_underscore)
  have ih0: "tokenized (sin_marcas db (concat (map marca cs))) \<and>
     replace (replace (sin_marcas db (concat (map marca cs))) tok_min enie_min)
        tok_may enie_may = keep_enie_acc db [] cs"
    using Cons.IH [of "[]"] cs95 by simp
  let ?A = "sin_marcas db pre"
  let ?W = "sin_marcas db (concat (map marca cs))"
  consider (min) "c = 241" | (may) "c = 209" | (other) "c \<noteq> 241" "c \<noteq> 209" by blast
  then show ?case
  proof cases
    case min
    have split: "sin_marcas db (pre @ tok_min @ concat (map marca cs)) = ?A @ tok_min @ ?W"
      using db tok_ascii(1,2) by (rule sin_marcas_block)
    have t: "tokenized (?A @ tok_min @ ?W)"
      using u ih0 by (simp add: tokenized_append tokenized.tok_min)
    have r1: "replace (?A @ tok_min @ ?W) tok_min enie_min =
                ?A @ enie_min @ replace ?W tok_min enie_min"
      using u by (simp add: replace_skip_min replace_hit [OF tok_ascii(1)])
    have u2: "95 \<notin> set (?A @ enie_min)"
      using u by (simp add: enie_min_def)
    have r2: "replace ((?A @ enie_min) @ replace ?W tok_min enie_min) tok_may enie_may =
                (?A @ enie_min) @ replace (replace ?W tok_min enie_min) tok_may enie_may"
      using u2 by (rule replace_skip_may)
    from split t r1 r2 ih0 min show ?thesis
      by (simp add: marca_simps enie_min_def)
  next
    case may
    have split: "sin_marcas db (pre @ tok_may @ concat (map marca cs)) = ?A @ tok_may @ ?W"
      using db tok_ascii(3,4) by (rule sin_marcas_block)
    have t: "tokenized (?A @ tok_may @ ?W)"
      using u ih0 by (simp add: tokenized_append tokenized.tok_may)
    have r1: "replace (?A @ tok_may @ ?W) tok_min enie_min =
                ?A @ tok_may @ replace ?W tok_min enie_min"
      using u ih0 by (simp add: replace_skip_min replace_pass_may)
    have r2: "replace (?A @ tok_may @ replace ?W tok_min enie_min) tok_may enie_may =
                ?A @ enie_may @ replace (replace ?W tok_min enie_min) tok_may enie_may"
      using u by (simp add: replace_skip_may replace_hit [OF tok_ascii(3)])
    from split t r1 r2 ih0 may show ?thesis
      by (simp add: marca_simps enie_may_def)
  next
    case other
    have "95 \<notin> set (pre @ [c])"
      using Cons.prems by simp
    from Cons.IH [OF this cs95] other show ?thesis
      by (simp add: marca_simps)
  qed
qed


lemma set_replace: "set (replace s old new) \<subseteq> set s \<union> set new"
proof (induction s old new rule: replace.induct)
  case (1 old new)
  then show ?case by auto
next
  case (2 c cs old new)
  have "set (drop (length old - 1) cs) \<subseteq> set cs"
    by (rule set_drop_subset)
  with 2 show ?case by (auto split: if_splits)
qed

lemma set_split_acc:
  "ws \<in> set (split_acc w s) \<Longrightarrow> x \<in> set ws \<Longrightarrow> x \<in> set w \<or> x \<in> set s"
  by (induction s arbitrary: w) (force split: if_splits)+

lemma set_join: "set (join sep ws) \<subseteq> set sep \<union> \<Union> (set ` set ws)"
  by (induction sep ws rule: join.induct) auto

lemma set_collapse_ws: "set (collapse_ws t) \<subseteq> insert 32 (set t)"
  using set_join [of "[32]" "split_ws t"] set_split_acc [of _ "[]" t]
  by (fastforce simp: collapse_ws_def split_ws_def)

lemma filter_split_acc:
  assumes "\<And>c. P c \<Longrightarrow> \<not> isspace c"
  shows "concat (map (filter P) (split_acc w s)) = filter P w @ filter P s"
  using assms by (induction s arbitrary: w) auto

lemma filter_join:
  assumes "\<not> P 32"
  shows "filter P (join [32] ws) = concat (map (filter P) ws)"
  using assms by (induction "[32::nat]" ws rule: join.induct) auto

lemma filter_collapse_ws:
  assumes "\<And>c. P c \<Longrightarrow> \<not> isspace c"
  shows "filter P (collapse_ws t) = filter P t"
proof -
  have "\<not> P 32" using assms [of 32] by (auto simp: isspace_def)
  then show ?thesis
    using filter_split_acc [of P "[]" t] assms
    by (simp add: collapse_ws_def split_ws_def filter_join)
qed

lemma subseq_keep_enie_acc:
  "subseq (filter (\<lambda>c. c = 241 \<or> c = 209) cs) (keep_enie_acc db pre cs)"
proof (induction cs arbitrary: pre)
  case Nil
  then show ?case by simp
next
  case (Cons c cs)
  show ?case
  proof (cases "c = 241 \<or> c = 209")
    case True
    have "subseq (c # filter (\<lambda>c. c = 241 \<or> c = 209) cs) (c # keep_enie_acc db [] cs)"
      using Cons.IH [of "[]"] by simp
    then have "subseq (c # filter (\<lambda>c. c = 241 \<or> c = 209) cs)
                 (sin_marcas db pre @ c # keep_enie_acc db [] cs)"
      by (rule list_emb_append2)
    with True show ?thesis by simp
  next
    case False
    with Cons.IH [of "pre @ [c]"] show ?thesis by simp
  qed
qed

lemma strip_accents_no_marks:
  assumes "\<not> is_Mn db 241" and "\<not> is_Mn db 209"
  shows "\<forall>ch \<in> set (strip_accents_keep_enie db text). \<not> is_Mn db ch"
proof (cases "text = []")
  case True
  then show ?thesis by (simp add: strip_accents_keep_enie_def)
next
  case False
  define wm where "wm = filter (\<lambda>ch. \<not> is_Mn db ch)
      (nfd_of db (replace (replace (collapse_ws text) enie_min tok_min) enie_may tok_may))"
  have r: "strip_accents_keep_enie db text =
             replace (replace wm tok_min enie_min) tok_may enie_may"
    using False by (simp add: strip_accents_keep_enie_def wm_def)
  have "set (replace (replace wm tok_min enie_min) tok_may enie_may)
          \<subseteq> set wm \<union> {241, 209}"
    using set_replace [of "replace wm tok_min enie_min" tok_may enie_may]
      set_replace [of wm tok_min enie_min]
    by (auto simp: enie_min_def enie_may_def)
  moreover have "\<forall>ch \<in> set wm. \<not> is_Mn db ch"
    by (simp add: wm_def)
  ultimately show ?thesis
    using assms r by auto
qed

lemma strip_accents_as_keep_enie:
  assumes "ascii_inert db" and "95 \<notin> set text"
  shows "strip_accents_keep_enie db text = keep_enie_spec db (collapse_ws text)"
proof (cases "text = []")
  case True
  with assms(1) show ?thesis
    by (simp add: strip_accents_keep_enie_def keep_enie_spec_def collapse_ws_def split_ws_def
          sin_marcas_Nil)
next
  case False
  have u: "95 \<notin> set (collapse_ws text)"
    using assms(2) set_collapse_ws [of "text"] by auto
  have "replace (replace (sin_marcas db ([] @ concat (map marca (collapse_ws text))))
            tok_min enie_min) tok_may enie_may = keep_enie_acc db [] (collapse_ws text)"
    using restore_marked [OF assms(1), of "[]" "collapse_ws text"] u by simp
  with False show ?thesis
    by (simp add: strip_accents_keep_enie_def marcar_text sin_marcas_def keep_enie_spec_def)
qed

text \<open>
  Where the input has no underscore the placeholders cannot collide with the text, and
  the function does what its docstring says, for a character database with the facts
  \<open>ascii_inert\<close>: the result is the text with its whitespace collapsed, cut at the letters
  U+00F1 and U+00D1, with the marks of category Mn removed from the pieces and the two
  letters kept in place. The result never contains a mark of category Mn.
\<close>

theorem strip_accents_keeps_enie:
  assumes "ascii_inert db"
  shows "(\<forall>ch \<in> set (strip_accents_keep_enie db text). \<not> is_Mn db ch) \<and>
         (95 \<notin> set text \<longrightarrow>
            strip_accents_keep_enie db text = keep_enie_spec db (collapse_ws text) \<and>
            subseq (filter (\<lambda>c. c = 241 \<or> c = 209) text) (strip_accents_keep_enie db text))"
proof -
  have m: "\<forall>ch \<in> set (strip_accents_keep_enie db text). \<not> is_Mn db ch"
    using assms by (intro strip_accents_no_marks) (simp_all add: ascii_inert_def)
  have "subseq (filter (\<lambda>c. c = 241 \<or> c = 209) text) (strip_accents_keep_enie db text)"
    if u: "95 \<notin> set text"
  proof -
    have "filter (\<lambda>c. c = 241 \<or> c = 209) (collapse_ws text) =
            filter (\<lambda>c. c = 241 \<or> c = 209) text"
      by (rule filter_collapse_ws) (auto simp: isspace_def)
    then show ?thesis
      using subseq_keep_enie_acc [of "collapse_ws text" db "[]"]
      by (simp add: strip_accents_as_keep_enie [OF assms u] keep_enie_spec_def)
  qed
  with m strip_accents_as_keep_enie [OF assms] show ?thesis by blast
qed

text \<open>
  C8: the docstring of \<open>strip_accents_keep_enie\<close> promises that the letter is kept, but
  the placeholders are not protected against text that already contains a piece of one:
  on the text \<open>__enie_min\<close> followed by the capital letter U+00D1, the marked text reads
  \<open>__enie_min__enie_may__\<close>, the first replacement finds the placeholder of the small
  letter at its start, and the capital letter is lost. A letter written in decomposed
  form, \<open>n\<close> followed by the combining tilde U+0303, is not protected either: the tilde is
  removed with the other marks.
\<close>

theorem enie_not_kept:
  "strip_accents_keep_enie latin1 (lit ''__enie_min'' @ [209]) = [241] @ lit ''enie_may__'' \<and>
   209 \<notin> set (strip_accents_keep_enie latin1 (lit ''__enie_min'' @ [209])) \<and>
   strip_accents_keep_enie latin1 [80, 101, 110, 771, 97] = lit ''Pena''"
  by (simp add: strip_accents_keep_enie_def lit_def collapse_ws_def split_ws_def isspace_def
        enie_min_def enie_may_def tok_min_def tok_may_def latin1_def decomp_latin1_def)

lemma decomp_capitals_no_underscore:
  "map_of decomp_capitals c = Some d \<Longrightarrow> 95 \<notin> set d \<and> 95 \<notin> set ([hd d + 32] @ tl d)"
  by (auto simp: decomp_capitals_def split: if_splits)

lemma decomp_latin1_no_underscore: "c \<noteq> 95 \<Longrightarrow> 95 \<notin> set (decomp_latin1 c)"
  using decomp_capitals_no_underscore [of c] decomp_capitals_no_underscore [of "c - 32"]
  by (auto simp: decomp_latin1_def split: option.splits)

lemma decomp_latin1_ascii: "c < 128 \<Longrightarrow> decomp_latin1 c = [c]"
  by (simp add: decomp_latin1_def)

lemma ascii_inert_latin1: "ascii_inert latin1"
proof -
  have "95 \<notin> set (concat (map decomp_latin1 xs))" if "95 \<notin> set xs" for xs
    using that by (induction xs) (auto dest: decomp_latin1_no_underscore)
  then show ?thesis
    by (simp add: ascii_inert_def latin1_def decomp_latin1_ascii)
qed


lemma decomp_latin1_A_acute: "decomp_latin1 193 = [65, 769]"
  by (simp add: decomp_latin1_def decomp_capitals_def)

theorem strip_accents_keeps_enie_witness:
  "strip_accents_keep_enie latin1 (lit ''Pe'' @ [241] @ lit ''a  '' @ [193] @ lit ''lvarez'') =
     keep_enie_spec latin1 (collapse_ws (lit ''Pe'' @ [241] @ lit ''a  '' @ [193] @ lit ''lvarez'')) \<and>
   subseq (filter (\<lambda>c. c = 241 \<or> c = 209) (lit ''Pe'' @ [241] @ lit ''a  '' @ [193] @ lit ''lvarez''))
     (strip_accents_keep_enie latin1 (lit ''Pe'' @ [241] @ lit ''a  '' @ [193] @ lit ''lvarez'')) \<and>
   list_all (\<lambda>ch. \<not> is_Mn latin1 ch)
     (strip_accents_keep_enie latin1 (lit ''Pe'' @ [241] @ lit ''a  '' @ [193] @ lit ''lvarez'')) \<and>
   strip_accents_keep_enie latin1 (lit ''Pe'' @ [241] @ lit ''a  '' @ [193] @ lit ''lvarez'') =
     lit ''Pe'' @ [241] @ lit ''a Alvarez''"
proof -
  let ?w = "lit ''Pe'' @ [241] @ lit ''a  '' @ [193] @ lit ''lvarez''"
  have u: "95 \<notin> set ?w"
    by (simp add: lit_def)
  have v: "strip_accents_keep_enie latin1 ?w = lit ''Pe'' @ [241] @ lit ''a Alvarez''"
    by (simp add: strip_accents_keep_enie_def lit_def collapse_ws_def split_ws_def isspace_def
          enie_min_def enie_may_def tok_min_def tok_may_def latin1_def decomp_latin1_ascii
          decomp_latin1_A_acute)
  note t = strip_accents_keeps_enie [OF ascii_inert_latin1, of ?w]
  from t have "list_all (\<lambda>ch. \<not> is_Mn latin1 ch) (strip_accents_keep_enie latin1 ?w)"
    unfolding list_all_iff by (rule conjunct1)
  moreover from t u have "strip_accents_keep_enie latin1 ?w = keep_enie_spec latin1 (collapse_ws ?w)"
    by blast
  moreover from t u have "subseq (filter (\<lambda>c. c = 241 \<or> c = 209) ?w)
      (strip_accents_keep_enie latin1 ?w)"
    by blast
  ultimately show ?thesis
    using v by (intro conjI)
qed


section \<open>Normalising twice\<close>

lemma replace_absent:
  assumes "find_sub s old = None"
  shows "replace s old new = s"
  using assms by (induction s) (auto split: if_splits)

lemma cortar_absent:
  assumes "\<forall>m \<in> set ms. find_sub s m = None"
  shows "cortar s ms = s"
  using assms by (induction ms) auto

lemma upper_fixed:
  assumes "\<forall>c \<in> set y. upper_of db c = [c]"
  shows "upper db y = y"
  using assms by (induction y) (auto simp: upper_def)

lemma set_cortar: "set (cortar s ms) \<subseteq> set s"
proof (induction ms)
  case Nil
  then show ?case by simp
next
  case (Cons m ms)
  then show ?case
    using set_take_subset [of _ s] by (auto split: option.splits)
qed

lemma set_strip_with: "set (strip_with p s) \<subseteq> set s"
proof -
  have "set (dropWhile p (rev (dropWhile p s))) \<subseteq> set (rev (dropWhile p s))"
    by (rule set_dropWhileD [THEN subsetI])
  moreover have "set (dropWhile p s) \<subseteq> set s"
    by (rule set_dropWhileD [THEN subsetI])
  ultimately show ?thesis
    by (auto simp: strip_with_def)
qed

lemma split_acc_words:
  assumes "\<forall>c \<in> set x. \<not> isspace c"
  shows "split_acc w (x @ s) = split_acc (w @ x) s"
  using assms by (induction x arbitrary: w) auto

lemma split_join:
  assumes "palabras ws"
  shows "split_acc [] (join [32] ws) = ws"
  using assms
proof (induction "[32::nat]" ws rule: join.induct)
  case 1
  then show ?case by simp
next
  case (2 x)
  then show ?case
    using split_acc_words [of x "[]" "[]"] by (simp add: palabras_def)
next
  case (3 x y ys)
  from 3 have "split_acc [] (join [32] (y # ys)) = y # ys"
    by (simp add: palabras_def)
  moreover have "isspace 32" by (simp add: isspace_def)
  ultimately show ?case
    using 3(2) split_acc_words [of x "[]" "32 # join [32] (y # ys)"]
    by (simp add: palabras_def)
qed

lemma palabras_split_acc:
  assumes "\<forall>c \<in> set w. \<not> isspace c"
  shows "palabras (split_acc w s)"
  using assms
proof (induction s arbitrary: w)
  case Nil
  then show ?case by (simp add: palabras_def)
next
  case (Cons c s)
  have e: "palabras (split_acc [] s)"
    by (rule Cons.IH) simp
  show ?case
  proof (cases "isspace c")
    case True
    with e Cons.prems show ?thesis by (auto simp: palabras_def)
  next
    case False
    with Cons.prems have "palabras (split_acc (w @ [c]) s)"
      by (intro Cons.IH) auto
    with False show ?thesis by simp
  qed
qed

lemma dropWhile_join:
  assumes "palabras ws" and "p 32"
  shows "\<exists>ws'. palabras ws' \<and> dropWhile p (join [32] ws) = join [32] ws'"
  using assms(1)
proof (induction "[32::nat]" ws rule: join.induct)
  case 1
  have "palabras []" by (simp add: palabras_def)
  then show ?case by force
next
  case (2 x)
  show ?case
  proof (cases "dropWhile p x = []")
    case True
    have "palabras []" by (simp add: palabras_def)
    with True show ?thesis by force
  next
    case False
    have "set (dropWhile p x) \<subseteq> set x"
      by (rule set_dropWhileD [THEN subsetI])
    with 2 False have "palabras [dropWhile p x]"
      by (auto simp: palabras_def)
    moreover have "dropWhile p (join [32] [x]) = join [32] [dropWhile p x]" by simp
    ultimately show ?thesis by blast
  qed
next
  case (3 x y ys)
  from 3(2) have py: "palabras (y # ys)" by (simp add: palabras_def)
  show ?case
  proof (cases "\<forall>c \<in> set x. p c")
    case True
    then have "dropWhile p (join [32] (x # y # ys)) = dropWhile p (join [32] (y # ys))"
      using assms(2) by simp
    with 3(1) [OF py] show ?thesis by simp
  next
    case False
    then have d: "dropWhile p (join [32] (x # y # ys)) =
        join [32] (dropWhile p x # y # ys)"
      by (auto simp: dropWhile_append1)
    have ne: "dropWhile p x \<noteq> []"
      using False by (simp add: dropWhile_eq_Nil_conv)
    have "set (dropWhile p x) \<subseteq> set x"
      by (rule set_dropWhileD [THEN subsetI])
    with 3(2) ne have "palabras (dropWhile p x # y # ys)"
      by (auto simp: palabras_def)
    with d show ?thesis by blast
  qed
qed

lemma join_snoc: "zs \<noteq> [] \<Longrightarrow> join [32] (zs @ [z]) = join [32] zs @ 32 # z"
  by (induction "[32::nat]" zs rule: join.induct) auto

lemma rev_join: "rev (join [32] ws) = join [32] (rev (map rev ws))"
proof (induction "[32::nat]" ws rule: join.induct)
  case 1
  then show ?case by simp
next
  case (2 x)
  then show ?case by simp
next
  case (3 x y ys)
  have "rev (join [32] (x # y # ys)) = rev (join [32] (y # ys)) @ 32 # rev x"
    by simp
  also have "\<dots> = join [32] (rev (map rev (y # ys))) @ 32 # rev x"
    by (simp only: 3)
  also have "\<dots> = join [32] (rev (map rev (y # ys)) @ [rev x])"
    by (rule join_snoc [symmetric]) simp
  finally show ?case by simp
qed

lemma palabras_rev: "palabras ws \<Longrightarrow> palabras (rev (map rev ws))"
  by (auto simp: palabras_def)

lemma strip_with_join:
  assumes "palabras ws" and "p 32"
  shows "\<exists>ws'. palabras ws' \<and> strip_with p (join [32] ws) = join [32] ws'"
proof -
  from dropWhile_join [of ws p, OF assms] obtain w1 where
    w1: "palabras w1" "dropWhile p (join [32] ws) = join [32] w1" by blast
  from dropWhile_join [of "rev (map rev w1)" p, OF palabras_rev [OF w1(1)] assms(2)] obtain w2 where
    w2: "palabras w2" "dropWhile p (join [32] (rev (map rev w1))) = join [32] w2" by blast
  have "strip_with p (join [32] ws) = join [32] (rev (map rev w2))"
    by (simp add: strip_with_def w1(2) rev_join w2(2))
  with palabras_rev [OF w2(1)] show ?thesis by blast
qed

lemma collapse_ws_strip_chars:
  assumes "32 \<in> set chars"
  shows "collapse_ws (strip_chars chars (collapse_ws z)) = strip_chars chars (collapse_ws z)"
proof -
  have "palabras (split_ws z)"
    unfolding split_ws_def by (rule palabras_split_acc) simp
  from strip_with_join [OF this, of "\<lambda>c. c \<in> set chars"] assms obtain ws' where
    ws': "palabras ws'" "strip_chars chars (collapse_ws z) = join [32] ws'"
    by (auto simp: strip_chars_def collapse_ws_def)
  show ?thesis
    by (simp add: ws'(2)) (simp add: collapse_ws_def split_ws_def split_join [OF ws'(1)])
qed

lemma strip_with_idem: "strip_with p (strip_with p s) = strip_with p s"
proof -
  define u where "u = dropWhile p s"
  define t where "t = rev (dropWhile p (rev u))"
  have ut: "u = t @ rev (takeWhile p (rev u))"
  proof -
    have "u = rev (rev u)" by simp
    also have "\<dots> = rev (takeWhile p (rev u) @ dropWhile p (rev u))"
      by (simp only: takeWhile_dropWhile_id)
    also have "\<dots> = t @ rev (takeWhile p (rev u))"
      by (simp only: rev_append t_def)
    finally show ?thesis .
  qed
  have "dropWhile p t = t"
  proof (cases t)
    case Nil
    then show ?thesis by simp
  next
    case (Cons a t')
    from ut Cons have "u = a # (t' @ rev (takeWhile p (rev u)))" by simp
    then have "u \<noteq> []" and "hd u = a"
      by (metis list.distinct(1), metis list.sel(1))
    then have "\<not> p a"
      using hd_dropWhile [of p s] by (simp add: u_def)
    with Cons show ?thesis by simp
  qed
  moreover have "dropWhile p (rev t) = rev t"
  proof (cases "rev t")
    case Nil
    then show ?thesis by simp
  next
    case (Cons a r)
    then have "dropWhile p (rev u) \<noteq> []" and "hd (dropWhile p (rev u)) = a"
      by (auto simp: t_def)
    then have "\<not> p a"
      using hd_dropWhile [of p "rev u"] by simp
    with Cons show ?thesis by simp
  qed
  ultimately show ?thesis
    by (simp add: strip_with_def u_def [symmetric] t_def [symmetric])
qed


lemma set_upper: "set (upper db s) = (\<Union>c \<in> set s. set (upper_of db c))"
  by (simp add: upper_def)

lemma limpiar_chars:
  "set (limpiar_frases_basura db x) \<subseteq> insert 32 (set (upper db x))"
proof (cases "x = []")
  case True
  then show ?thesis by (simp add: limpiar_frases_basura_def)
next
  case False
  define t1 where "t1 = cortar (upper db x) cortes"
  define t2 where "t2 = replace t1 (lit '' SIN NUMERO'') []"
  define t3 where "t3 = replace t2 (lit '' S/N'') []"
  have "set t1 \<subseteq> set (upper db x)"
    unfolding t1_def by (rule set_cortar)
  moreover have "set t2 \<subseteq> set t1"
    unfolding t2_def using set_replace [of t1 "lit '' SIN NUMERO''" "[]"] by simp
  moreover have "set t3 \<subseteq> set t2"
    unfolding t3_def using set_replace [of t2 "lit '' S/N''" "[]"] by simp
  ultimately have "set t3 \<subseteq> set (upper db x)" by blast
  then have i: "insert 32 (set t3) \<subseteq> insert 32 (set (upper db x))"
    by (rule insert_mono)
  have "set (strip_chars (lit '', '') (collapse_ws t3)) \<subseteq> set (collapse_ws t3)"
    unfolding strip_chars_def by (rule set_strip_with)
  also have "\<dots> \<subseteq> insert 32 (set t3)"
    by (rule set_collapse_ws)
  also note i
  finally have "set (strip_chars (lit '', '') (collapse_ws t3)) \<subseteq> insert 32 (set (upper db x))" .
  moreover have "limpiar_frases_basura db x = strip_chars (lit '', '') (collapse_ws t3)"
    using False by (simp add: limpiar_frases_basura_def t1_def t2_def t3_def)
  ultimately show ?thesis by simp
qed

lemma limpiar_shape:
  "\<exists>z. limpiar_frases_basura db x = strip_chars (lit '', '') (collapse_ws z)"
proof (cases "x = []")
  case True
  have "strip_chars (lit '', '') (collapse_ws []) = []"
    by (simp add: strip_chars_def strip_with_def collapse_ws_def split_ws_def)
  with True show ?thesis
    by (metis limpiar_frases_basura_def)
next
  case False
  then show ?thesis
    by (auto simp: limpiar_frases_basura_def Let_def)
qed

text \<open>
  C7 (as amended): when the text returned by \<open>limpiar_frases_basura\<close> contains no noise
  phrase and no missing-number marker, normalising it again returns it unchanged.
\<close>

theorem limpiar_idempotent_when_clean:
  assumes "upper_estable db" and "sin_frases (limpiar_frases_basura db x)"
  shows "limpiar_frases_basura db (limpiar_frases_basura db x) = limpiar_frases_basura db x"
proof -
  define y where "y = limpiar_frases_basura db x"
  have up: "upper db y = y"
  proof (rule upper_fixed, rule ballI)
    fix c assume "c \<in> set y"
    then have "c = 32 \<or> c \<in> set (upper db x)"
      using limpiar_chars [of db x] by (auto simp: y_def)
    then show "upper_of db c = [c]"
      using assms(1) by (auto simp: upper_estable_def set_upper)
  qed
  from assms(2) have c: "cortar y cortes = y"
    by (intro cortar_absent) (simp add: sin_frases_def contains_def y_def)
  from assms(2) have r1: "replace y (lit '' SIN NUMERO'') [] = y"
    by (intro replace_absent) (simp add: sin_frases_def contains_def y_def)
  from assms(2) have r2: "replace y (lit '' S/N'') [] = y"
    by (intro replace_absent) (simp add: sin_frases_def contains_def y_def)
  obtain z where z: "y = strip_chars (lit '', '') (collapse_ws z)"
    using limpiar_shape [of db x] by (auto simp: y_def)
  have w: "collapse_ws y = y"
    unfolding z by (rule collapse_ws_strip_chars) (simp add: lit_def)
  have s: "strip_chars (lit '', '') y = y"
    unfolding z strip_chars_def by (rule strip_with_idem)
  have "limpiar_frases_basura db y = y"
  proof (cases "y = []")
    case True
    then show ?thesis by (simp add: limpiar_frases_basura_def)
  next
    case False
    then show ?thesis
      by (simp add: limpiar_frases_basura_def up c r1 r2 w s)
  qed
  then show ?thesis by (simp add: y_def)
qed


lemmas limpiar_eval =
  limpiar_frases_basura_def lit_def collapse_ws_def split_ws_def isspace_def latin1_def
  upper_def upper_latin1_def cortes_def strip_chars_def strip_with_def

lemma limpiar_hidalgo:
  "limpiar_frases_basura latin1 (lit ''Hidalgo 12 esquina Juarez frente al jardin'') =
     lit ''HIDALGO 12 ESQUINA JUAREZ''"
  by (simp add: limpiar_eval)

lemma limpiar_hidalgo_again:
  "limpiar_frases_basura latin1 (lit ''HIDALGO 12 ESQUINA JUAREZ'') = lit ''HIDALGO 12''"
  by (simp add: limpiar_eval)

lemmas limpiar_domicilio_eval =
  limpiar_domicilio_def lit_def strip_def strip_chars_def strip_with_def isspace_def
  latin1_def upper_def upper_latin1_def quitar_etiqueta_def rx_lit_def reemplazos_def

lemma limpiar_domicilio_no_no:
  "limpiar_domicilio latin1 (lit ''X NO. NO. 5'') = lit ''X NO. 5''"
  by (simp add: limpiar_domicilio_eval)

lemma limpiar_domicilio_no_no_again:
  "limpiar_domicilio latin1 (lit ''X NO. 5'') = lit ''X 5''"
  by (simp add: limpiar_domicilio_eval)

lemmas strip_accents_eval =
  strip_accents_keep_enie_def lit_def collapse_ws_def split_ws_def isspace_def
  enie_min_def enie_may_def tok_min_def tok_may_def latin1_def decomp_latin1_def

lemma strip_accents_lone_mark:
  "strip_accents_keep_enie latin1 [97, 32, 769, 32, 98] = lit ''a  b''"
  by (simp add: strip_accents_eval)

lemma strip_accents_lone_mark_again:
  "strip_accents_keep_enie latin1 (lit ''a  b'') = lit ''a b''"
  by (simp add: strip_accents_eval)

text \<open>
  C7 as stated fails for each of the three normalisers: a second phrase that survived
  the first pass is cut by the second pass; \<open>limpiar_domicilio\<close> removes one of two
  adjacent abbreviations per pass; and removing a lone combining mark leaves two
  spaces that the next pass collapses.
\<close>

theorem normalize_not_idempotent_counterexample:
  "limpiar_frases_basura latin1
     (limpiar_frases_basura latin1 (lit ''Hidalgo 12 esquina Juarez frente al jardin'')) \<noteq>
   limpiar_frases_basura latin1 (lit ''Hidalgo 12 esquina Juarez frente al jardin'') \<and>
   limpiar_domicilio latin1 (limpiar_domicilio latin1 (lit ''X NO. NO. 5'')) \<noteq>
   limpiar_domicilio latin1 (lit ''X NO. NO. 5'') \<and>
   strip_accents_keep_enie latin1
     (strip_accents_keep_enie latin1 [97, 32, 769, 32, 98]) \<noteq>
   strip_accents_keep_enie latin1 [97, 32, 769, 32, 98]"
  by (simp add: limpiar_hidalgo limpiar_hidalgo_again limpiar_domicilio_no_no
        limpiar_domicilio_no_no_again strip_accents_lone_mark strip_accents_lone_mark_again)
     (simp add: lit_def)

lemma upper_estable_latin1: "upper_estable latin1"
  by (auto simp: upper_estable_def latin1_def upper_latin1_def split: if_splits)

lemma limpiar_calle_esquina:
  "limpiar_frases_basura latin1 (lit ''Calle 5 esquina Juarez'') = lit ''CALLE 5''"
  by (simp add: limpiar_eval)

lemma sin_frases_calle_5: "sin_frases (lit ''CALLE 5'')"
  by (simp add: sin_frases_def contains_def cortes_def lit_def)

theorem limpiar_idempotent_when_clean_witness:
  "limpiar_frases_basura latin1 (limpiar_frases_basura latin1 (lit ''Calle 5 esquina Juarez'')) =
     limpiar_frases_basura latin1 (lit ''Calle 5 esquina Juarez'')"
proof -
  have "sin_frases (limpiar_frases_basura latin1 (lit ''Calle 5 esquina Juarez''))"
    by (simp only: limpiar_calle_esquina sin_frases_calle_5)
  with upper_estable_latin1 show ?thesis
    by (rule limpiar_idempotent_when_clean)
qed

end
